theory Spec2Isabelle
  imports Main "HOL-Library.Multiset"
begin

section \<open>Data model\<close>

text \<open>
  The image row the uploader component works with
  (\<^verbatim>\<open>type ExistingImage = { id; bucket; path; position }\<close>).  The field
  \<^verbatim>\<open>id\<close> is written \<open>img_id\<close> because \<open>id\<close> is HOL's identity function.
  Positions are the integers of the \<^verbatim>\<open>position int\<close> column.
\<close>

record ExistingImage =
  img_id :: string
  bucket :: string
  path :: string
  position :: int

text \<open>The errors a remote call can report (sections 6 and 7 of the specification), and
  \<open>NotLoggedIn\<close> for the client-side \<^verbatim>\<open>throw new Error("Please log in to save favorites.")\<close>.\<close>

datatype error =
    ConstraintViolation | AlreadyExists | NotFound | NetworkFailure | Unauthorized | NotLoggedIn

section \<open>Pure helpers of the uploader component\<close>

text \<open>
  \<^verbatim>\<open>[...images].sort((a, b) => (a.position ?? 0) - (b.position ?? 0))\<close>:
  a stable sort by position on a copy of the array.  \<open>sort_key\<close> is the stable
  insertion sort of the library.
\<close>

definition sortByPosition :: "ExistingImage list \<Rightarrow> ExistingImage list" where
  "sortByPosition images = sort_key position images"

text \<open>
  \<^verbatim>\<open>sorted.map((img, idx) => ({ ...img, position: idx }))\<close> after
  \<^verbatim>\<open>const sorted = sortByPosition(images)\<close>.
\<close>

definition normalizePositions :: "ExistingImage list \<Rightarrow> ExistingImage list" where
  "normalizePositions images =
     (let sorted = sortByPosition images
      in map (\<lambda>(idx, img). img\<lparr>position := int idx\<rparr>) (enumerate 0 sorted))"

text \<open>\<^verbatim>\<open>Array.prototype.findIndex\<close>: the first index whose element satisfies the
  predicate, \<open>-1\<close> when there is none.\<close>

fun findIndex :: "('a \<Rightarrow> bool) \<Rightarrow> 'a list \<Rightarrow> int" where
  "findIndex P [] = -1"
| "findIndex P (x # xs) =
     (if P x then 0 else (let j = findIndex P xs in if j < 0 then -1 else j + 1))"

text \<open>\<^verbatim>\<open>xs.filter((_, i) => i !== idx)\<close>: drop the element at one index.\<close>

definition filterIndexNot :: "nat \<Rightarrow> 'a list \<Rightarrow> 'a list" where
  "filterIndexNot idx xs = map snd (filter (\<lambda>(i, x). i \<noteq> idx) (enumerate 0 xs))"

text \<open>
  \<^verbatim>\<open>[rows[idx], ...rows.filter((_, i) => i !== idx)]\<close>, used by set-cover once
  \<open>idx > 0\<close> is known (so \<open>rows[idx]\<close> exists).
\<close>

definition moveToFront :: "nat \<Rightarrow> 'a list \<Rightarrow> 'a list" where
  "moveToFront idx xs = (xs ! idx) # filterIndexNot idx xs"

section \<open>The remote ordered store\<close>

text \<open>
  Modelled from the spec: the remote store (the \<^verbatim>\<open>listing_images\<close> table behind the
  REST layer) is an external collaborator, not code of the repository.  Section 2 and
  section 4.2 of the specification and the schema in the README give its contract: rows
  \<open>(id, parent, position, ...)\<close> under \<^verbatim>\<open>UNIQUE (listing_id, position)\<close>, checked
  immediately at every write, with read, update-by-id and delete-by-id operations.
  The record holds the rows of one listing, the transport faults the next calls will meet
  (\<open>Some e\<close>: the call fails with \<open>e\<close> and changes nothing; \<open>None\<close> or no entry: the
  call goes through), and the log of the calls issued so far.
\<close>

datatype call =
    SelectImages
  | UpdatePosition string int
  | DeleteImage string
  | DeleteImages "string list"

record remote =
  rows :: "ExistingImage list"
  faults :: "error option list"
  calls :: "call list"

type_synonym 'a io = "remote \<Rightarrow> (error + 'a) \<times> remote"

text \<open>\<^verbatim>\<open>await\<close> one call, \<^verbatim>\<open>if (error) throw error\<close>, go on with the rest.\<close>

definition and_then :: "'a io \<Rightarrow> ('a \<Rightarrow> 'b io) \<Rightarrow> 'b io" where
  "and_then m f r = (case m r of (Inl e, r') \<Rightarrow> (Inl e, r') | (Inr x, r') \<Rightarrow> f x r')"

definition done_io :: "'a \<Rightarrow> 'a io" where
  "done_io x r = (Inr x, r)"

text \<open>Every call is logged when it is issued and takes the next entry of the fault plan.\<close>

definition issue :: "call \<Rightarrow> remote \<Rightarrow> error option \<times> remote" where
  "issue c r =
     (let r1 = r\<lparr>calls := calls r @ [c]\<rparr>
      in case faults r1 of
           [] \<Rightarrow> (None, r1)
         | f # fs \<Rightarrow> (f, r1\<lparr>faults := fs\<rparr>))"

text \<open>Modelled from the spec: \<^verbatim>\<open>remoteListItems\<close>, the rows ordered by position.\<close>

definition remoteListItems :: "ExistingImage list io" where
  "remoteListItems r =
     (case issue SelectImages r of
        (Some e, r1) \<Rightarrow> (Inl e, r1)
      | (None, r1) \<Rightarrow> (Inr (sort_key position (rows r1)), r1))"

text \<open>The raw effect of \<^verbatim>\<open>update({ position: p }).eq("id", x)\<close> on the rows.\<close>

definition setPosition :: "string \<Rightarrow> int \<Rightarrow> ExistingImage list \<Rightarrow> ExistingImage list" where
  "setPosition x p rs = map (\<lambda>\<rho>. if img_id \<rho> = x then \<rho>\<lparr>position := p\<rparr> else \<rho>) rs"

text \<open>The uniqueness constraint refuses a write that would give the row the position
  another row of the listing holds.\<close>

definition collides :: "string \<Rightarrow> int \<Rightarrow> ExistingImage list \<Rightarrow> bool" where
  "collides x p rs =
     (list_ex (\<lambda>\<rho>. img_id \<rho> = x) rs \<and> list_ex (\<lambda>\<rho>. img_id \<rho> \<noteq> x \<and> position \<rho> = p) rs)"

text \<open>Modelled from the spec: \<^verbatim>\<open>remoteUpdateItemPosition\<close>.  An update that matches no
  row changes nothing and reports no error.\<close>

definition remoteUpdateItemPosition :: "string \<Rightarrow> int \<Rightarrow> unit io" where
  "remoteUpdateItemPosition x p r =
     (case issue (UpdatePosition x p) r of
        (Some e, r1) \<Rightarrow> (Inl e, r1)
      | (None, r1) \<Rightarrow>
          if collides x p (rows r1) then (Inl ConstraintViolation, r1)
          else (Inr (), r1\<lparr>rows := setPosition x p (rows r1)\<rparr>))"

text \<open>Modelled from the spec: \<^verbatim>\<open>remoteDeleteItem\<close>.  Deleting an id that matches no
  row deletes nothing and reports no error.\<close>

definition remoteDeleteItem :: "string \<Rightarrow> unit io" where
  "remoteDeleteItem x r =
     (case issue (DeleteImage x) r of
        (Some e, r1) \<Rightarrow> (Inl e, r1)
      | (None, r1) \<Rightarrow> (Inr (), r1\<lparr>rows := filter (\<lambda>\<rho>. img_id \<rho> \<noteq> x) (rows r1)\<rparr>))"

section \<open>The optimistic uploader: remote phases\<close>

text \<open>
  \<^verbatim>\<open>for (let i = 0; i < rows.length; i++) { update({ position: off + i }).eq("id", rows[i].id); if (e) throw e; }\<close>
  The loop is a recursion over the rows with the running index.
\<close>

fun writePositions :: "int \<Rightarrow> nat \<Rightarrow> ExistingImage list \<Rightarrow> unit io" where
  "writePositions off i [] = done_io ()"
| "writePositions off i (x # xs) =
     and_then (remoteUpdateItemPosition (img_id x) (off + int i))
       (\<lambda>_. writePositions off (Suc i) xs)"

text \<open>The two loops one after the other: phase 1 at \<open>1000 + i\<close>, phase 2 at \<open>i\<close>.\<close>

definition twoPhase :: "ExistingImage list \<Rightarrow> unit io" where
  "twoPhase xs = and_then (writePositions 1000 0 xs) (\<lambda>_. writePositions 0 0 xs)"

text \<open>
  \<^verbatim>\<open>deleteMutation.mutationFn\<close>: delete the row, read the remaining rows ordered by
  position, renumber them in two phases.  The storage removal between the two is best
  effort (its error is only logged) and does not touch the table.
\<close>

definition deleteMutation_mutationFn :: "ExistingImage \<Rightarrow> unit io" where
  "deleteMutation_mutationFn img =
     and_then (remoteDeleteItem (img_id img)) (\<lambda>_.
     and_then remoteListItems (\<lambda>rs. twoPhase rs))"

text \<open>\<^verbatim>\<open>reorderMutation.mutationFn\<close>: the three writes of the pairwise swap.\<close>

definition temp :: int where
  "temp = -999999"

definition reorderMutation_mutationFn :: "ExistingImage \<Rightarrow> ExistingImage \<Rightarrow> unit io" where
  "reorderMutation_mutationFn a b =
     and_then (remoteUpdateItemPosition (img_id a) temp) (\<lambda>_.
     and_then (remoteUpdateItemPosition (img_id b) (position a)) (\<lambda>_.
     remoteUpdateItemPosition (img_id a) (position b)))"

text \<open>\<^verbatim>\<open>setCoverMutation.mutationFn\<close>: read the rows, return at once when the target
  is the cover already or is not there, else move it to the front and renumber.\<close>

definition setCoverMutation_mutationFn :: "ExistingImage \<Rightarrow> unit io" where
  "setCoverMutation_mutationFn img =
     and_then remoteListItems (\<lambda>rs.
       let idx = findIndex (\<lambda>r. img_id r = img_id img) rs
       in if idx \<le> 0 then done_io ()
          else twoPhase (moveToFront (nat idx) rs))"

section \<open>The optimistic uploader: cache updates\<close>

text \<open>
  The query cache entry of \<^verbatim>\<open>["listing-images", listingId]\<close> is \<open>None\<close> while no data
  is there (\<^verbatim>\<open>undefined\<close>).  Each \<^verbatim>\<open>onMutate\<close> returns its context
  \<^verbatim>\<open>{ prev }\<close> and the new cache entry.
\<close>

type_synonym cache = "ExistingImage list option"

definition getQueryData :: "cache \<Rightarrow> ExistingImage list" where
  "getQueryData c = (case c of None \<Rightarrow> [] | Some xs \<Rightarrow> xs)"

definition deleteMutation_onMutate :: "ExistingImage \<Rightarrow> cache \<Rightarrow> ExistingImage list \<times> cache" where
  "deleteMutation_onMutate img c =
     (let prev = getQueryData c;
          next = normalizePositions (filter (\<lambda>x. img_id x \<noteq> img_id img) prev)
      in (prev, Some next))"

definition reorderMutation_onMutate ::
  "ExistingImage \<Rightarrow> ExistingImage \<Rightarrow> cache \<Rightarrow> ExistingImage list \<times> cache" where
  "reorderMutation_onMutate a b c =
     (let prev = getQueryData c;
          next = map (\<lambda>img. if img_id img = img_id a then img\<lparr>position := position b\<rparr>
                            else if img_id img = img_id b then img\<lparr>position := position a\<rparr>
                            else img) prev
      in (prev, Some (sortByPosition next)))"

definition setCoverMutation_onMutate :: "ExistingImage \<Rightarrow> cache \<Rightarrow> ExistingImage list \<times> cache" where
  "setCoverMutation_onMutate img c =
     (let prev = getQueryData c;
          sorted = sortByPosition prev;
          idx = findIndex (\<lambda>x. img_id x = img_id img) sorted
      in if idx \<le> 0 then (prev, c)
         else (prev, Some (normalizePositions (moveToFront (nat idx) sorted))))"

text \<open>\<^verbatim>\<open>onError: if (ctx?.prev) qc.setQueryData(queryKey, ctx.prev)\<close>.  The context is
  always there and \<open>prev\<close> is an array, which is truthy even when empty.\<close>

definition images_onError :: "ExistingImage list \<Rightarrow> cache \<Rightarrow> cache" where
  "images_onError prev c = Some prev"

section \<open>The mutation life cycle\<close>

text \<open>
  The query library, an external dependency, runs a mutation as \<^verbatim>\<open>onMutate\<close>, then
  \<^verbatim>\<open>mutationFn\<close> once (a mutation is retried only when \<^verbatim>\<open>retry\<close> is configured,
  and no mutation of the repository configures it), then \<^verbatim>\<open>onError\<close> with the context
  when \<^verbatim>\<open>mutationFn\<close> threw, or \<^verbatim>\<open>onSuccess\<close> when it returned.  The image
  handlers also set the component's \<^verbatim>\<open>errorMsg\<close>: \<^verbatim>\<open>setErrorMsg(null)\<close> in
  \<^verbatim>\<open>onMutate\<close> and \<^verbatim>\<open>setErrorMsg(err?.message ?? fallback)\<close> in \<^verbatim>\<open>onError\<close>.
  The message of an error is not modelled: the shown text is the fallback tagged with
  the error.

  \<^verbatim>\<open>onSuccess\<close> of the image mutations awaits
  \<^verbatim>\<open>qc.invalidateQueries({ queryKey })\<close>: the images query of the mounted component
  is fetched again (the rows ordered by position) and its result replaces the cache
  entry; when the fetch fails the entry keeps its data.
\<close>

definition refetchImages :: "cache \<Rightarrow> remote \<Rightarrow> cache \<times> remote" where
  "refetchImages c r =
     (case remoteListItems r of
        (Inl e, r') \<Rightarrow> (c, r')
      | (Inr rs, r') \<Rightarrow> (Some rs, r'))"

text \<open>
  What one mutation leaves: \<open>cacheAfter\<close> and \<open>remoteAfter\<close> are the cache entry and the
  store when \<^verbatim>\<open>mutationFn\<close> has returned or thrown and \<^verbatim>\<open>onError\<close> has run;
  \<open>cacheSettled\<close> and \<open>remoteSettled\<close> are the two when \<^verbatim>\<open>onSuccess\<close> is through as
  well (after a failure they are the same as before).
\<close>

record outcome =
  cacheAfter :: cache
  errorMsg :: "(string \<times> error) option"
  remoteAfter :: remote
  cacheSettled :: cache
  remoteSettled :: remote

definition runImageMutation ::
  "string \<Rightarrow> (cache \<Rightarrow> ExistingImage list \<times> cache) \<Rightarrow> unit io \<Rightarrow> cache \<Rightarrow> remote \<Rightarrow> outcome" where
  "runImageMutation fallback onMutate mutationFn c r =
     (case onMutate c of
        (prev, c1) \<Rightarrow>
          (case mutationFn r of
             (Inl e, r') \<Rightarrow>
               \<lparr>cacheAfter = images_onError prev c1, errorMsg = Some (fallback, e),
                 remoteAfter = r', cacheSettled = images_onError prev c1, remoteSettled = r'\<rparr>
           | (Inr u, r') \<Rightarrow>
               (case refetchImages c1 r' of
                  (c2, r'') \<Rightarrow>
                    \<lparr>cacheAfter = c1, errorMsg = None, remoteAfter = r',
                      cacheSettled = c2, remoteSettled = r''\<rparr>)))"

definition runDelete :: "ExistingImage \<Rightarrow> cache \<Rightarrow> remote \<Rightarrow> outcome" where
  "runDelete img =
     runImageMutation ''Delete failed'' (deleteMutation_onMutate img) (deleteMutation_mutationFn img)"

definition runReorder :: "ExistingImage \<Rightarrow> ExistingImage \<Rightarrow> cache \<Rightarrow> remote \<Rightarrow> outcome" where
  "runReorder a b =
     runImageMutation ''Reorder failed'' (reorderMutation_onMutate a b) (reorderMutation_mutationFn a b)"

definition runSetCover :: "ExistingImage \<Rightarrow> cache \<Rightarrow> remote \<Rightarrow> outcome" where
  "runSetCover img =
     runImageMutation ''Set cover failed'' (setCoverMutation_onMutate img)
       (setCoverMutation_mutationFn img)"

section \<open>The uploader without optimistic updates\<close>

text \<open>
  \<^verbatim>\<open>src/features/listings/components/ListingImageUploader.tsx\<close> holds a second version
  of the component.  Its \<^verbatim>\<open>reorderMutation.mutationFn\<close> and
  \<^verbatim>\<open>setCoverMutation.mutationFn\<close> are the ones above; its
  \<^verbatim>\<open>deleteMutation.mutationFn\<close> deletes the row (and the stored object, best effort)
  and returns.
\<close>

definition ListingImageUploader_deleteMutation_mutationFn :: "ExistingImage \<Rightarrow> unit io" where
  "ListingImageUploader_deleteMutation_mutationFn img = remoteDeleteItem (img_id img)"

section \<open>The listing form\<close>

text \<open>
  \<^verbatim>\<open>ListingForm.tsx\<close> keeps the existing images in component state, in display order,
  and the ids marked for removal in a set; nothing is written before \<^verbatim>\<open>Save\<close>.
  \<^verbatim>\<open>moveExisting(from, to)\<close> moves one visible image: the indices count the images
  not marked as deleted, \<^verbatim>\<open>splice\<close> takes the image out and puts it back in.
\<close>

definition moveExisting ::
  "string list \<Rightarrow> nat \<Rightarrow> int \<Rightarrow> ExistingImage list \<Rightarrow> ExistingImage list" where
  "moveExisting deletedImageIds from to prev =
     (let visibleIdxs = map fst (filter (\<lambda>(i, x). img_id x \<notin> set deletedImageIds) (enumerate 0 prev))
      in if from \<ge> length visibleIdxs then prev
         else if to < 0 \<or> to \<ge> int (length visibleIdxs) then prev
         else let fromIdx = visibleIdxs ! from;
                  toIdx = visibleIdxs ! nat to;
                  it = prev ! fromIdx;
                  rest = take fromIdx prev @ drop (Suc fromIdx) prev
              in take toIdx rest @ [it] @ drop toIdx rest)"

text \<open>Modelled from the spec: delete-by-id for several ids at once
  (\<^verbatim>\<open>delete().in("id", ids)\<close>), under the same contract as \<open>remoteDeleteItem\<close>.\<close>

definition remoteDeleteItems :: "string list \<Rightarrow> unit io" where
  "remoteDeleteItems ids r =
     (case issue (DeleteImages ids) r of
        (Some e, r1) \<Rightarrow> (Inl e, r1)
      | (None, r1) \<Rightarrow> (Inr (), r1\<lparr>rows := filter (\<lambda>\<rho>. img_id \<rho> \<notin> set ids) (rows r1)\<rparr>))"

definition deleteListingImageRows :: "string list \<Rightarrow> unit io" where
  "deleteListingImageRows ids = (if ids = [] then done_io () else remoteDeleteItems ids)"

text \<open>\<^verbatim>\<open>for (const r of rows) { update({ position: r.position }).eq("id", r.id); if (error) throw error; }\<close>\<close>

fun updateImagePositions :: "(string \<times> int) list \<Rightarrow> unit io" where
  "updateImagePositions [] = done_io ()"
| "updateImagePositions ((x, p) # rs) =
     and_then (remoteUpdateItemPosition x p) (\<lambda>_. updateImagePositions rs)"

text \<open>
  Steps 2 and 3 of the edit branch of the form's \<^verbatim>\<open>mutationFn\<close>: delete the rows
  marked for removal, then write position \<open>idx\<close> to the remaining images in display
  order.  The removal of the stored objects between the two does not touch the table.
\<close>

definition saveExistingImages :: "ExistingImage list \<Rightarrow> string list \<Rightarrow> unit io" where
  "saveExistingImages existingImages deletedImageIds =
     and_then (deleteListingImageRows deletedImageIds) (\<lambda>_.
       let remaining = filter (\<lambda>x. img_id x \<notin> set deletedImageIds) existingImages;
           positionUpdates = map (\<lambda>(idx, img). (img_id img, int idx)) (enumerate 0 remaining)
       in updateImagePositions positionUpdates)"

section \<open>Favorites on the listings page\<close>

text \<open>
  Modelled from the spec: the remote membership store (the \<^verbatim>\<open>favorites\<close> table) is an
  external collaborator.  Section 2 and section 6 of the specification and the schema in
  the README give its contract: rows \<open>(user_id, listing_id)\<close> under
  \<^verbatim>\<open>UNIQUE (user_id, listing_id)\<close>, with insert and delete-by-key.
\<close>

datatype fav_call = InsertFavorite string string | DeleteFavorite string string

record fav_remote =
  favorites :: "(string \<times> string) list"
  fav_faults :: "error option list"
  fav_calls :: "fav_call list"

definition fav_issue :: "fav_call \<Rightarrow> fav_remote \<Rightarrow> error option \<times> fav_remote" where
  "fav_issue c r =
     (let r1 = r\<lparr>fav_calls := fav_calls r @ [c]\<rparr>
      in case fav_faults r1 of
           [] \<Rightarrow> (None, r1)
         | f # fs \<Rightarrow> (f, r1\<lparr>fav_faults := fs\<rparr>))"

definition remoteInsertMembership :: "string \<Rightarrow> string \<Rightarrow> fav_remote \<Rightarrow> (error + unit) \<times> fav_remote" where
  "remoteInsertMembership u l r =
     (case fav_issue (InsertFavorite u l) r of
        (Some e, r1) \<Rightarrow> (Inl e, r1)
      | (None, r1) \<Rightarrow>
          if (u, l) \<in> set (favorites r1) then (Inl AlreadyExists, r1)
          else (Inr (), r1\<lparr>favorites := favorites r1 @ [(u, l)]\<rparr>))"

definition remoteDeleteMembership :: "string \<Rightarrow> string \<Rightarrow> fav_remote \<Rightarrow> (error + unit) \<times> fav_remote" where
  "remoteDeleteMembership u l r =
     (case fav_issue (DeleteFavorite u l) r of
        (Some e, r1) \<Rightarrow> (Inl e, r1)
      | (None, r1) \<Rightarrow> (Inr (), r1\<lparr>favorites := filter (\<lambda>e. e \<noteq> (u, l)) (favorites r1)\<rparr>))"

text \<open>
  \<^verbatim>\<open>toggleFavorite.mutationFn\<close>.  \<open>favSet\<close> is the data of the favorites query as the
  component last rendered it (\<open>None\<close>: \<^verbatim>\<open>undefined\<close>), \<open>userId\<close> the signed-in user
  (\<open>None\<close>: none).  The result is \<^verbatim>\<open>{ listingId, next }\<close>.
\<close>

definition toggleFavorite_mutationFn ::
  "string option \<Rightarrow> string set option \<Rightarrow> string \<Rightarrow> fav_remote \<Rightarrow> (error + string \<times> bool) \<times> fav_remote" where
  "toggleFavorite_mutationFn userId favSet listingId r =
     (case userId of
        None \<Rightarrow> (Inl NotLoggedIn, r)
      | Some u \<Rightarrow>
          let isFav = (case favSet of None \<Rightarrow> False | Some s \<Rightarrow> listingId \<in> s)
          in if isFav
             then (case remoteDeleteMembership u listingId r of
                     (Inl e, r') \<Rightarrow> (Inl e, r')
                   | (Inr _, r') \<Rightarrow> (Inr (listingId, False), r'))
             else (case remoteInsertMembership u listingId r of
                     (Inl e, r') \<Rightarrow> (Inl e, r')
                   | (Inr _, r') \<Rightarrow> (Inr (listingId, True), r')))"

text \<open>
  \<^verbatim>\<open>toggleFavorite.onMutate\<close>: \<^verbatim>\<open>prev = qc.getQueryData(favKey)\<close>,
  \<^verbatim>\<open>next = new Set(prev ?? favSet ?? new Set())\<close>, toggle the id in \<open>next\<close>, store it.
  Returns the context \<^verbatim>\<open>{ prev }\<close> and the new cache entry.
\<close>

type_synonym fav_cache = "string set option"

definition toggleFavorite_onMutate ::
  "string set option \<Rightarrow> string \<Rightarrow> fav_cache \<Rightarrow> fav_cache \<times> fav_cache" where
  "toggleFavorite_onMutate favSet listingId c =
     (let prev = c;
          base = (case prev of Some s \<Rightarrow> s
                  | None \<Rightarrow> (case favSet of Some s \<Rightarrow> s | None \<Rightarrow> {}));
          next = (if listingId \<in> base then base - {listingId} else insert listingId base)
      in (prev, Some next))"

text \<open>\<^verbatim>\<open>onError: if (ctx?.prev) qc.setQueryData(favKey, ctx.prev)\<close>.  A \<^verbatim>\<open>Set\<close> is
  truthy, \<^verbatim>\<open>undefined\<close> is not.\<close>

definition toggleFavorite_onError :: "fav_cache \<Rightarrow> fav_cache \<Rightarrow> fav_cache" where
  "toggleFavorite_onError prev c = (case prev of Some s \<Rightarrow> Some s | None \<Rightarrow> c)"

text \<open>
  The page: the signed-in user, the cache entry under \<^verbatim>\<open>favKey\<close>, what the component
  saw when it last rendered (\<open>renderedFavSet\<close>: the \<^verbatim>\<open>favSet\<close> its handlers close over;
  \<open>renderedPending\<close>: \<^verbatim>\<open>toggleFavorite.isPending\<close>), the toggles in flight (each with
  the listing id, the \<open>favSet\<close> its \<^verbatim>\<open>mutationFn\<close> reads and its context), and the
  remote store.
\<close>

record favorites_page =
  userId :: "string option"
  favCache :: fav_cache
  renderedFavSet :: "string set option"
  renderedPending :: bool
  togglesInFlight :: "(string \<times> string set option \<times> fav_cache) list"
  favRemote :: fav_remote

text \<open>The component renders again: \<^verbatim>\<open>favSet\<close> is the data of the favorites query, that
  is the cache entry, and \<^verbatim>\<open>isPending\<close> holds while the toggle started last is in
  flight.\<close>

definition renderPage :: "favorites_page \<Rightarrow> favorites_page" where
  "renderPage s = s\<lparr>renderedFavSet := favCache s, renderedPending := (togglesInFlight s \<noteq> [])\<rparr>"

text \<open>\<^verbatim>\<open>disabled={!userId || toggleFavorite.isPending}\<close>, a property of the button as it
  was last rendered.\<close>

definition favoriteButtonDisabled :: "favorites_page \<Rightarrow> bool" where
  "favoriteButtonDisabled s = (if userId s = None then True else renderedPending s)"

text \<open>A click on the heart of one listing: nothing when the rendered button is disabled,
  else \<^verbatim>\<open>toggleFavorite.mutate(row.id)\<close> with no check of its own.  \<^verbatim>\<open>onMutate\<close>
  reads the cache entry as it is now and falls back on the rendered \<^verbatim>\<open>favSet\<close>;
  \<^verbatim>\<open>mutationFn\<close> reads the rendered \<^verbatim>\<open>favSet\<close> only.\<close>

definition clickFavorite :: "string \<Rightarrow> favorites_page \<Rightarrow> favorites_page" where
  "clickFavorite listingId s =
     (if favoriteButtonDisabled s then s
      else case toggleFavorite_onMutate (renderedFavSet s) listingId (favCache s) of
             (prev, c1) \<Rightarrow>
               s\<lparr>favCache := c1,
                 togglesInFlight := togglesInFlight s @ [(listingId, renderedFavSet s, prev)]\<rparr>)"

text \<open>The oldest toggle in flight resolves (requests are answered in the order they were
  sent): its request meets the remote store, and \<^verbatim>\<open>onError\<close> runs when it failed
  (\<^verbatim>\<open>onSuccess\<close> invalidates other queries only).\<close>

definition settleFavorite :: "favorites_page \<Rightarrow> favorites_page" where
  "settleFavorite s =
     (case togglesInFlight s of
        [] \<Rightarrow> s
      | (listingId, favSet, prev) # rest \<Rightarrow>
          (case toggleFavorite_mutationFn (userId s) favSet listingId (favRemote s) of
             (Inl e, r') \<Rightarrow>
               s\<lparr>favCache := toggleFavorite_onError prev (favCache s),
                 togglesInFlight := rest, favRemote := r'\<rparr>
           | (Inr res, r') \<Rightarrow> s\<lparr>togglesInFlight := rest, favRemote := r'\<rparr>))"

section \<open>The buttons of the optimistic uploader\<close>

text \<open>
  The component state the buttons read: the cache entry, and the mutations in flight,
  each with its kind and its context \<^verbatim>\<open>{ prev }\<close>.  \<^verbatim>\<open>isPending\<close> of a mutation hook
  holds while a mutation of its kind is in flight.
\<close>

datatype mutationKind = DeleteKind | ReorderKind | SetCoverKind

record uploader =
  imagesCache :: cache
  inFlight :: "(mutationKind \<times> ExistingImage list) list"

definition isPending :: "mutationKind \<Rightarrow> uploader \<Rightarrow> bool" where
  "isPending k s = list_ex (\<lambda>m. fst m = k) (inFlight s)"

text \<open>\<^verbatim>\<open>const anyReorderBusy = reorderMutation.isPending || setCoverMutation.isPending\<close>\<close>

definition anyReorderBusy :: "uploader \<Rightarrow> bool" where
  "anyReorderBusy s = (isPending ReorderKind s \<or> isPending SetCoverKind s)"

definition existingSorted :: "uploader \<Rightarrow> ExistingImage list" where
  "existingSorted s = sortByPosition (getQueryData (imagesCache s))"

definition startMutation :: "mutationKind \<Rightarrow> ExistingImage list \<times> cache \<Rightarrow> uploader \<Rightarrow> uploader" where
  "startMutation k ctx s =
     (case ctx of (prev, c1) \<Rightarrow> s\<lparr>imagesCache := c1, inFlight := inFlight s @ [(k, prev)]\<rparr>)"

text \<open>The four buttons of the image at \<open>index\<close> of \<open>existingSorted\<close>, each with its
  \<^verbatim>\<open>disabled\<close> condition; a click on a disabled or absent button changes nothing.
  \<^verbatim>\<open>Set cover\<close> is rendered for \<open>index \<noteq> 0\<close> only.\<close>

definition clickMoveUp :: "nat \<Rightarrow> uploader \<Rightarrow> uploader" where
  "clickMoveUp index s =
     (let xs = existingSorted s
      in if length xs \<le> index then s
         else if index = 0 \<or> anyReorderBusy s then s
         else startMutation ReorderKind
                (reorderMutation_onMutate (xs ! (index - 1)) (xs ! index) (imagesCache s)) s)"

definition clickMoveDown :: "nat \<Rightarrow> uploader \<Rightarrow> uploader" where
  "clickMoveDown index s =
     (let xs = existingSorted s
      in if length xs \<le> index then s
         else if index = length xs - 1 \<or> anyReorderBusy s then s
         else startMutation ReorderKind
                (reorderMutation_onMutate (xs ! index) (xs ! (index + 1)) (imagesCache s)) s)"

definition clickSetCover :: "nat \<Rightarrow> uploader \<Rightarrow> uploader" where
  "clickSetCover index s =
     (let xs = existingSorted s
      in if length xs \<le> index then s
         else if index = 0 \<or> isPending SetCoverKind s then s
         else startMutation SetCoverKind (setCoverMutation_onMutate (xs ! index) (imagesCache s)) s)"

definition clickRemove :: "nat \<Rightarrow> uploader \<Rightarrow> uploader" where
  "clickRemove index s =
     (let xs = existingSorted s
      in if length xs \<le> index then s
         else if isPending DeleteKind s then s
         else startMutation DeleteKind (deleteMutation_onMutate (xs ! index) (imagesCache s)) s)"

text \<open>The mutation of kind \<open>k\<close> in flight fails: \<^verbatim>\<open>onError\<close> puts its \<open>prev\<close> back.\<close>

fun takeOut :: "mutationKind \<Rightarrow> (mutationKind \<times> ExistingImage list) list \<Rightarrow>
    (ExistingImage list \<times> (mutationKind \<times> ExistingImage list) list) option" where
  "takeOut k [] = None"
| "takeOut k (m # ms) =
     (if fst m = k then Some (snd m, ms)
      else (case takeOut k ms of None \<Rightarrow> None | Some (prev, rest) \<Rightarrow> Some (prev, m # rest)))"

definition mutationFailed :: "mutationKind \<Rightarrow> uploader \<Rightarrow> uploader" where
  "mutationFailed k s =
     (case takeOut k (inFlight s) of
        None \<Rightarrow> s
      | Some (prev, rest) \<Rightarrow> s\<lparr>imagesCache := images_onError prev (imagesCache s), inFlight := rest\<rparr>)"

section \<open>Notions used to state the results\<close>

text \<open>The positions of \<open>n\<close> rows are exactly \<open>0, ..., n - 1\<close>.\<close>

definition gapless :: "ExistingImage list \<Rightarrow> bool" where
  "gapless rs = (sort (map position rs) = map int [0..<length rs])"

text \<open>A list in its order, at positions \<open>0, 1, 2, ...\<close>.\<close>

definition renumber :: "ExistingImage list \<Rightarrow> ExistingImage list" where
  "renumber xs = map (\<lambda>(idx, img). img\<lparr>position := int idx\<rparr>) (enumerate 0 xs)"

text \<open>Rows with the positions a partial map gives to their ids.\<close>

definition assign :: "(string \<rightharpoonup> int) \<Rightarrow> ExistingImage list \<Rightarrow> ExistingImage list" where
  "assign f rs = map (\<lambda>\<rho>. case f (img_id \<rho>) of None \<Rightarrow> \<rho> | Some p \<Rightarrow> \<rho>\<lparr>position := p\<rparr>) rs"

text \<open>What one loop of position writes has written to each id when it is through, and
  the calls it issues.\<close>

fun written :: "int \<Rightarrow> nat \<Rightarrow> ExistingImage list \<Rightarrow> (string \<rightharpoonup> int)" where
  "written off i [] = Map.empty"
| "written off i (x # xs) = [img_id x \<mapsto> off + int i] ++ written off (Suc i) xs"

fun writeCalls :: "int \<Rightarrow> nat \<Rightarrow> ExistingImage list \<Rightarrow> call list" where
  "writeCalls off i [] = []"
| "writeCalls off i (x # xs) = UpdatePosition (img_id x) (off + int i) # writeCalls off (Suc i) xs"

text \<open>During the second loop, at index \<open>i\<close> with \<open>ys\<close> still to write: a row still to
  write sits where the first loop put it, every other row below \<open>i\<close>.\<close>

definition vacated :: "int \<Rightarrow> nat \<Rightarrow> ExistingImage list \<Rightarrow> ExistingImage \<Rightarrow> bool" where
  "vacated c i ys \<rho> =
     (case written c i ys (img_id \<rho>) of Some p \<Rightarrow> position \<rho> = p | None \<Rightarrow> position \<rho> < int i)"

section \<open>Example values\<close>

text \<open>An image row with a given id and position, and a remote store that holds given
  rows, meets no fault and has logged no call.\<close>

definition mkImage :: "string \<Rightarrow> int \<Rightarrow> ExistingImage" where
  "mkImage x p = \<lparr>img_id = x, bucket = ''car-images'', path = x, position = p\<rparr>"

definition store :: "ExistingImage list \<Rightarrow> remote" where
  "store rs = \<lparr>rows = rs, faults = [], calls = []\<rparr>"

text \<open>The listings page of a user, rendered with a given cache entry, no toggle in
  flight and an empty favorites table that meets the given transport faults.\<close>

definition page :: "string option \<Rightarrow> fav_cache \<Rightarrow> error option list \<Rightarrow> favorites_page" where
  "page u c fs = \<lparr>userId = u, favCache = c, renderedFavSet = c, renderedPending = False,
                  togglesInFlight = [],
                  favRemote = \<lparr>favorites = [], fav_faults = fs, fav_calls = []\<rparr>\<rparr>"

text \<open>The uploader with a given cache entry and no mutation in flight.\<close>

definition uploaderWith :: "ExistingImage list \<Rightarrow> uploader" where
  "uploaderWith xs = \<lparr>imagesCache = Some xs, inFlight = []\<rparr>"

section \<open>Facts about the helpers\<close>

lemma filterIndexNot_eq: "filterIndexNot idx xs = take idx xs @ drop (Suc idx) xs"
proof -
  have "\<And>n. map snd (filter (\<lambda>(i, x). i \<noteq> n + idx) (enumerate n xs)) = take idx xs @ drop (Suc idx) xs"
  proof (induction xs arbitrary: idx)
    case Nil
    then show ?case by simp
  next
    case (Cons a xs)
    show ?case
    proof (cases idx)
      case 0
      have "filter (\<lambda>(i, x). i \<noteq> n) (enumerate (Suc n) xs) = enumerate (Suc n) xs"
        by (rule filter_True) (auto simp: in_set_enumerate_eq)
      then show ?thesis using 0 by simp
    next
      case (Suc k)
      then show ?thesis using Cons.IH[of "Suc n" k] by simp
    qed
  qed
  from this[of 0] show ?thesis by (simp add: filterIndexNot_def)
qed

lemma img_id_assign [simp]: "map img_id (assign f rs) = map img_id rs"
  by (simp add: assign_def split: option.split)

lemma assign_empty [simp]: "assign Map.empty rs = rs"
  by (simp add: assign_def)

lemma assign_assign: "assign g (assign f rs) = assign (f ++ g) rs"
  by (auto simp: assign_def map_add_def split: option.splits)

lemma setPosition_assign: "setPosition x p rs = assign [x \<mapsto> p] rs"
  by (auto simp: setPosition_def assign_def)

lemma dom_written [simp]: "dom (written off i xs) = set (map img_id xs)"
  by (induction xs arbitrary: i) auto

lemma written_bounds:
  "written off i xs z = Some p \<Longrightarrow> off + int i \<le> p \<and> p < off + int (i + length xs)"
proof (induction xs arbitrary: i)
  case Nil
  then show ?case by simp
next
  case (Cons x xs)
  show ?case
  proof (cases "written off (Suc i) xs z")
    case None
    with Cons.prems show ?thesis by (auto simp: map_add_def split: if_splits)
  next
    case (Some q)
    with Cons.prems have "q = p" by (simp add: map_add_def)
    with Cons.IH[of "Suc i"] Some show ?thesis by auto
  qed
qed

lemma assign_written_self:
  "distinct (map img_id xs) \<Longrightarrow>
   assign (written off i xs) xs = map (\<lambda>(j, x). x\<lparr>position := off + int j\<rparr>) (enumerate i xs)"
proof (induction xs arbitrary: i)
  case Nil
  then show ?case by (simp add: assign_def)
next
  case (Cons x xs)
  have notin: "written off (Suc i) xs (img_id x) = None"
  proof -
    have "img_id x \<notin> dom (written off (Suc i) xs)" using Cons.prems by simp
    then show ?thesis by blast
  qed
  have "assign ([img_id x \<mapsto> off + int i] ++ written off (Suc i) xs) xs
        = assign (written off (Suc i) xs) xs"
    unfolding assign_def
  proof (rule map_cong[OF refl])
    fix \<rho> assume "\<rho> \<in> set xs"
    then have "img_id \<rho> \<in> dom (written off (Suc i) xs)" by simp
    then obtain q where "written off (Suc i) xs (img_id \<rho>) = Some q" by blast
    then show "(case ([img_id x \<mapsto> off + int i] ++ written off (Suc i) xs) (img_id \<rho>) of
                  None \<Rightarrow> \<rho> | Some p \<Rightarrow> \<rho>\<lparr>position := p\<rparr>) =
               (case written off (Suc i) xs (img_id \<rho>) of None \<Rightarrow> \<rho> | Some p \<Rightarrow> \<rho>\<lparr>position := p\<rparr>)"
      by (simp add: map_add_def)
  qed
  with Cons.IH[of "Suc i"] Cons.prems notin show ?case
    by (simp add: assign_def map_add_def)
qed

lemma issue_no_faults [simp]:
  "faults r = [] \<Longrightarrow> issue c r = (None, r\<lparr>calls := calls r @ [c]\<rparr>)"
  by (simp add: issue_def Let_def)

lemma writePositions_post:
  "writePositions off i xs r = (Inr u, r') \<Longrightarrow>
   rows r' = assign (written off i xs) (rows r) \<and> calls r' = calls r @ writeCalls off i xs"
proof (induction xs arbitrary: i r)
  case Nil
  then show ?case by (simp add: done_io_def)
next
  case (Cons x xs)
  from Cons.prems obtain r1 where
    step: "remoteUpdateItemPosition (img_id x) (off + int i) r = (Inr (), r1)" and
    rest: "writePositions off (Suc i) xs r1 = (Inr u, r')"
    by (auto simp: and_then_def split: prod.splits sum.splits)
  from step have r1: "rows r1 = setPosition (img_id x) (off + int i) (rows r)"
    "calls r1 = calls r @ [UpdatePosition (img_id x) (off + int i)]"
    by (auto simp: remoteUpdateItemPosition_def issue_def Let_def
             split: prod.splits option.splits if_splits list.splits)
  from Cons.IH[OF rest] r1 show ?case
    by (simp add: setPosition_assign assign_assign)
qed

lemma writePositions_up:
  "faults r = [] \<Longrightarrow> list_all (\<lambda>\<rho>. position \<rho> < off + int i) (rows r) \<Longrightarrow>
   \<exists>r'. writePositions off i xs r = (Inr (), r') \<and> faults r' = []"
proof (induction xs arbitrary: i r)
  case Nil
  then show ?case by (simp add: done_io_def)
next
  case (Cons x xs)
  let ?p = "off + int i"
  have nc: "\<not> collides (img_id x) ?p (rows r)"
    using Cons.prems(2) by (auto simp: collides_def list_all_iff list_ex_iff)
  define r1 where "r1 = r\<lparr>calls := calls r @ [UpdatePosition (img_id x) ?p],
                           rows := setPosition (img_id x) ?p (rows r)\<rparr>"
  have step: "remoteUpdateItemPosition (img_id x) ?p r = (Inr (), r1)"
    using Cons.prems(1) nc by (simp add: remoteUpdateItemPosition_def r1_def)
  have "faults r1 = []" using Cons.prems(1) by (simp add: r1_def)
  moreover have "list_all (\<lambda>\<rho>. position \<rho> < off + int (Suc i)) (rows r1)"
    using Cons.prems(2) by (auto simp: r1_def setPosition_def list_all_iff)
  ultimately obtain r' where "writePositions off (Suc i) xs r1 = (Inr (), r')" "faults r' = []"
    using Cons.IH by blast
  with step show ?case by (simp add: and_then_def)
qed

lemma writePositions_down:
  "faults r = [] \<Longrightarrow> 0 < c \<Longrightarrow> distinct (map img_id ys) \<Longrightarrow>
   list_all (vacated c i ys) (rows r) \<Longrightarrow>
   \<exists>r'. writePositions 0 i ys r = (Inr (), r') \<and> faults r' = []"
proof (induction ys arbitrary: i r)
  case Nil
  then show ?case by (simp add: done_io_def)
next
  case (Cons x ys)
  let ?W = "written c (Suc i) ys"
  have notin: "?W (img_id x) = None"
  proof -
    have "img_id x \<notin> dom ?W" using Cons.prems(3) by simp
    then show ?thesis by blast
  qed
  have other: "vacated c i (x # ys) \<rho> =
      (case ?W (img_id \<rho>) of Some p \<Rightarrow> position \<rho> = p | None \<Rightarrow> position \<rho> < int i)"
    if "img_id \<rho> \<noteq> img_id x" for \<rho>
    using that by (simp add: vacated_def map_add_def split: option.split)
  have nc: "\<not> collides (img_id x) (int i) (rows r)"
  proof
    assume "collides (img_id x) (int i) (rows r)"
    then obtain \<rho> where \<rho>: "\<rho> \<in> set (rows r)" "img_id \<rho> \<noteq> img_id x" "position \<rho> = int i"
      by (auto simp: collides_def list_ex_iff)
    from Cons.prems(4) \<rho>(1) have v: "vacated c i (x # ys) \<rho>" by (simp add: list_all_iff)
    show False
    proof (cases "?W (img_id \<rho>)")
      case None
      with v other[OF \<rho>(2)] \<rho>(3) show False by simp
    next
      case (Some p)
      with v other[OF \<rho>(2)] \<rho>(3) have "p = int i" by simp
      moreover from written_bounds[OF Some] have "c + int (Suc i) \<le> p" by simp
      ultimately show False using Cons.prems(2) by simp
    qed
  qed
  define r1 where "r1 = r\<lparr>calls := calls r @ [UpdatePosition (img_id x) (0 + int i)],
                           rows := setPosition (img_id x) (0 + int i) (rows r)\<rparr>"
  have step: "remoteUpdateItemPosition (img_id x) (0 + int i) r = (Inr (), r1)"
    using Cons.prems(1) nc by (simp add: remoteUpdateItemPosition_def r1_def)
  have f1: "faults r1 = []" using Cons.prems(1) by (simp add: r1_def)
  have inv: "list_all (vacated c (Suc i) ys) (rows r1)"
    unfolding list_all_iff
  proof
    fix \<rho>' assume "\<rho>' \<in> set (rows r1)"
    then obtain \<rho> where \<rho>: "\<rho> \<in> set (rows r)"
      and \<rho>': "\<rho>' = (if img_id \<rho> = img_id x then \<rho>\<lparr>position := int i\<rparr> else \<rho>)"
      by (auto simp: r1_def setPosition_def)
    from Cons.prems(4) \<rho> have v: "vacated c i (x # ys) \<rho>" by (simp add: list_all_iff)
    show "vacated c (Suc i) ys \<rho>'"
    proof (cases "img_id \<rho> = img_id x")
      case True
      with \<rho>' notin show ?thesis by (simp add: vacated_def)
    next
      case False
      with \<rho>' v other[OF False] show ?thesis
        by (cases "?W (img_id \<rho>)") (auto simp: vacated_def)
    qed
  qed
  from Cons.IH[OF f1 Cons.prems(2) _ inv] Cons.prems(3)
  obtain r' where "writePositions 0 (Suc i) ys r1 = (Inr (), r')" "faults r' = []" by auto
  with step show ?case by (simp add: and_then_def)
qed

lemma twoPhase_succeeds:
  assumes "faults r = []" "distinct (map img_id xs)"
    and "set (map img_id (rows r)) \<subseteq> set (map img_id xs)"
    and "list_all (\<lambda>\<rho>. position \<rho> < 1000) (rows r)"
  shows "\<exists>r'. twoPhase xs r = (Inr (), r') \<and> faults r' = []"
proof -
  from writePositions_up[of r 1000 0 xs] assms(1,4)
  obtain r1 where p1: "writePositions 1000 0 xs r = (Inr (), r1)" and f1: "faults r1 = []"
    by auto
  from writePositions_post[OF p1]
  have rows1: "rows r1 = assign (written 1000 0 xs) (rows r)" by simp
  have "list_all (vacated 1000 0 xs) (rows r1)"
    unfolding list_all_iff
  proof
    fix \<rho>' assume "\<rho>' \<in> set (rows r1)"
    then obtain \<rho> where \<rho>: "\<rho> \<in> set (rows r)"
      and \<rho>': "\<rho>' = (case written 1000 0 xs (img_id \<rho>) of None \<Rightarrow> \<rho> | Some p \<Rightarrow> \<rho>\<lparr>position := p\<rparr>)"
      by (auto simp: rows1 assign_def)
    from \<rho> assms(3) have "img_id \<rho> \<in> dom (written 1000 0 xs)" by auto
    then obtain p where "written 1000 0 xs (img_id \<rho>) = Some p" by blast
    with \<rho>' show "vacated 1000 0 xs \<rho>'" by (simp add: vacated_def)
  qed
  from writePositions_down[OF f1 _ assms(2) this]
  obtain r2 where "writePositions 0 0 xs r1 = (Inr (), r2)" "faults r2 = []" by auto
  with p1 show ?thesis by (simp add: twoPhase_def and_then_def)
qed

lemma twoPhase_post:
  assumes "twoPhase xs r = (Inr u, r')"
  shows "rows r' = assign (written 0 0 xs) (rows r)"
    and "calls r' = calls r @ writeCalls 1000 0 xs @ writeCalls 0 0 xs"
proof -
  from assms obtain r1 where p1: "writePositions 1000 0 xs r = (Inr (), r1)"
    and p2: "writePositions 0 0 xs r1 = (Inr u, r')"
    by (auto simp: twoPhase_def and_then_def split: prod.splits sum.splits)
  have "written 1000 0 xs ++ written 0 0 xs = written 0 0 xs"
  proof
    fix z
    show "(written 1000 0 xs ++ written 0 0 xs) z = written 0 0 xs z"
    proof (cases "written 0 0 xs z")
      case None
      then have "z \<notin> dom (written 0 0 xs)" by blast
      then have "z \<notin> dom (written 1000 0 xs)" by simp
      then have "written 1000 0 xs z = None" by blast
      with None show ?thesis by (simp add: map_add_def)
    next
      case (Some p)
      then show ?thesis by (simp add: map_add_def)
    qed
  qed
  with writePositions_post[OF p1] writePositions_post[OF p2]
  show "rows r' = assign (written 0 0 xs) (rows r)"
    and "calls r' = calls r @ writeCalls 1000 0 xs @ writeCalls 0 0 xs"
    by (simp_all add: assign_assign)
qed

lemma renumber_eq: "distinct (map img_id xs) \<Longrightarrow> assign (written 0 0 xs) xs = renumber xs"
  by (simp add: assign_written_self renumber_def)

lemma map_position_renumber: "map position (renumber xs) = map int [0..<length xs]"
proof -
  have "\<And>n. map position (map (\<lambda>(idx, img). img\<lparr>position := int idx\<rparr>) (enumerate n xs))
        = map int [n..<n + length xs]"
    by (induction xs arbitrary: n) (auto simp: upt_conv_Cons simp del: upt_Suc)
  from this[of 0] show ?thesis by (simp add: renumber_def)
qed

lemma sorted_renumber: "sorted (map position (renumber xs))"
  by (simp add: map_position_renumber sorted_map)

lemma distinct_renumber: "distinct (map position (renumber xs))"
  by (simp add: map_position_renumber distinct_map inj_on_def)

lemma filter_eq_single: "distinct zs \<Longrightarrow> k \<in> set zs \<Longrightarrow> filter (\<lambda>x. k = x) zs = [k]"
  by (induction zs) (auto simp: filter_empty_conv)

lemma sort_key_unique:
  assumes "mset ys = mset zs" "sorted (map f zs)" "distinct (map f zs)"
  shows "sort_key f ys = zs"
proof (rule properties_for_sort_key)
  show "mset zs = mset ys" using assms(1) by simp
  show "sorted (map f zs)" by fact
  fix k assume k: "k \<in> set zs"
  have dz: "distinct zs" using assms(3) by (simp add: distinct_map)
  have inj: "inj_on f (set zs)" using assms(3) by (simp add: distinct_map)
  have "filter (\<lambda>x. f k = f x) zs = filter (\<lambda>x. k = x) zs"
    by (rule filter_cong[OF refl]) (use inj k in \<open>auto simp: inj_on_def\<close>)
  with filter_eq_single[OF dz k] have zs: "filter (\<lambda>x. f k = f x) zs = [k]" by simp
  have "mset (filter (\<lambda>x. f k = f x) ys) = mset (filter (\<lambda>x. f k = f x) zs)"
    using assms(1) by simp
  with zs have "mset (filter (\<lambda>x. f k = f x) ys) = {#k#}" by simp
  then have "filter (\<lambda>x. f k = f x) ys = [k]" by (simp only: mset_single_iff)
  with zs show "filter (\<lambda>x. f k = f x) zs = filter (\<lambda>x. f k = f x) ys" by simp
qed

lemma twoPhase_outcome:
  assumes "twoPhase xs r = (Inr u, r')" "mset (rows r) = mset xs" "distinct (map img_id xs)"
  shows "sortByPosition (rows r') = renumber xs"
proof -
  have "mset (rows r') = mset (assign (written 0 0 xs) (rows r))"
    using twoPhase_post(1)[OF assms(1)] by simp
  also have "\<dots> = mset (assign (written 0 0 xs) xs)"
    unfolding assign_def mset_map using assms(2) by simp
  also have "\<dots> = mset (renumber xs)" using assms(3) by (simp add: renumber_eq)
  finally show ?thesis
    unfolding sortByPosition_def
    by (rule sort_key_unique) (rule sorted_renumber, rule distinct_renumber)
qed

text \<open>Both loops together, for rows with distinct ids and positions below the offset.\<close>

lemma twoPhase_renumbers:
  assumes "faults r = []" and "distinct (map img_id xs)" and "mset (rows r) = mset xs"
    and "list_all (\<lambda>\<rho>. position \<rho> < 1000) (rows r)"
  shows "\<exists>r'. twoPhase xs r = (Inr (), r') \<and> sortByPosition (rows r') = renumber xs"
proof -
  have "set (map img_id (rows r)) \<subseteq> set (map img_id xs)"
    using assms(3) by (metis mset_map set_mset_mset subset_refl)
  from twoPhase_succeeds[OF assms(1,2) this assms(4)]
  obtain r' where t: "twoPhase xs r = (Inr (), r')" by blast
  from twoPhase_outcome[OF t assms(3,2)] t show ?thesis by blast
qed

lemma findIndex_none: "\<not> list_ex P xs \<Longrightarrow> findIndex P xs = - 1"
  by (induction xs) auto

lemma findIndex_head: "P x \<Longrightarrow> findIndex P (x # xs) = 0"
  by simp

lemma findIndex_neg_iff: "findIndex P xs < 0 \<longleftrightarrow> \<not> list_ex P xs"
  by (induction xs) (auto simp: Let_def)

lemma findIndex_nth:
  "0 \<le> findIndex P xs \<Longrightarrow> nat (findIndex P xs) < length xs \<and> P (xs ! nat (findIndex P xs))"
proof (induction xs)
  case Nil
  then show ?case by simp
next
  case (Cons x xs)
  then show ?case by (auto simp: Let_def nat_add_distrib split: if_splits)
qed

lemma remoteListItems_rows:
  "remoteListItems r = (res, r') \<Longrightarrow> rows r' = rows r \<and> calls r' = calls r @ [SelectImages]"
  by (auto simp: remoteListItems_def issue_def Let_def split: list.splits option.splits)

lemma remoteListItems_value:
  "remoteListItems r = (Inr rs, r') \<Longrightarrow> rs = sortByPosition (rows r)"
  by (auto simp: remoteListItems_def issue_def Let_def sortByPosition_def split: list.splits option.splits)

section \<open>Facts about a single position write\<close>

lemma img_id_setPosition [simp]: "map img_id (setPosition x p rs) = map img_id rs"
  by (simp add: setPosition_def)

lemma setPosition_absent:
  "x \<notin> set (map img_id rs) \<Longrightarrow> setPosition x p rs = rs"
  by (induction rs) (auto simp: setPosition_def)

lemma set_positions_setPosition:
  "set (map position (setPosition x p rs)) \<subseteq> insert p (set (map position rs))"
  by (auto simp: setPosition_def)




lemma distinct_setPosition:
  assumes "distinct (map img_id rs)" "distinct (map position rs)"
    and "\<not> list_ex (\<lambda>\<rho>. img_id \<rho> \<noteq> x \<and> position \<rho> = p) rs"
  shows "distinct (map position (setPosition x p rs))"
  using assms
proof (induction rs)
  case Nil
  then show ?case by (simp add: setPosition_def)
next
  case (Cons \<rho> rs)
  have IH: "distinct (map position (setPosition x p rs))"
    using Cons by simp
  show ?case
  proof (cases "img_id \<rho> = x")
    case True
    with Cons.prems(1) have "x \<notin> set (map img_id rs)" by auto
    then have same: "setPosition x p rs = rs" by (rule setPosition_absent)
    have "p \<notin> set (map position rs)"
    proof
      assume "p \<in> set (map position rs)"
      then obtain \<rho>' where "\<rho>' \<in> set rs" "position \<rho>' = p" by auto
      moreover with \<open>x \<notin> set (map img_id rs)\<close> have "img_id \<rho>' \<noteq> x" by auto
      ultimately show False using Cons.prems(3) by (auto simp: list_ex_iff)
    qed
    with True same Cons.prems(2) show ?thesis by (simp add: setPosition_def)
  next
    case False
    with Cons.prems(3) have ne: "position \<rho> \<noteq> p" by simp
    have "position \<rho> \<notin> set (map position (setPosition x p rs))"
    proof
      assume "position \<rho> \<in> set (map position (setPosition x p rs))"
      with set_positions_setPosition[of x p rs] ne
      have "position \<rho> \<in> set (map position rs)" by auto
      with Cons.prems(2) show False by simp
    qed
    with False IH show ?thesis by (simp add: setPosition_def)
  qed
qed


lemma list_ex_img_id: "list_ex (\<lambda>\<rho>. img_id \<rho> = x) rs \<longleftrightarrow> x \<in> set (map img_id rs)"
  by (induction rs) auto

lemma collides_iff:
  "collides x p rs \<longleftrightarrow>
     x \<in> set (map img_id rs) \<and> list_ex (\<lambda>\<rho>. img_id \<rho> \<noteq> x \<and> position \<rho> = p) rs"
  by (simp only: collides_def list_ex_img_id)

text \<open>A write the store accepts leaves ids and positions pairwise distinct, so wherever a
  loop of writes stops, no two rows share a position.\<close>

lemma accepted_write_keeps_unique:
  assumes "remoteUpdateItemPosition x p r = (Inr u, r')"
    and "distinct (map img_id (rows r))" and "distinct (map position (rows r))"
  shows "distinct (map img_id (rows r')) \<and> distinct (map position (rows r'))"
proof -
  from assms(1) have nc: "\<not> collides x p (rows r)" and rows': "rows r' = setPosition x p (rows r)"
    by (auto simp: remoteUpdateItemPosition_def issue_def Let_def
             split: list.splits option.splits if_splits)
  show ?thesis
  proof (cases "x \<in> set (map img_id (rows r))")
    case True
    with nc have "\<not> list_ex (\<lambda>\<rho>. img_id \<rho> \<noteq> x \<and> position \<rho> = p) (rows r)"
      by (simp add: collides_iff)
    from distinct_setPosition[OF assms(2,3) this] assms(2) show ?thesis by (simp add: rows')
  next
    case False
    then have "setPosition x p (rows r) = rows r" by (rule setPosition_absent)
    with assms(2,3) show ?thesis by (simp add: rows')
  qed
qed

lemma writePositions_keeps_unique:
  "writePositions off i xs r = (res, r') \<Longrightarrow>
   distinct (map img_id (rows r)) \<Longrightarrow> distinct (map position (rows r)) \<Longrightarrow>
   distinct (map img_id (rows r')) \<and> distinct (map position (rows r'))"
proof (induction xs arbitrary: i r)
  case Nil
  then show ?case by (simp add: done_io_def)
next
  case (Cons x xs)
  obtain res1 r1 where w: "remoteUpdateItemPosition (img_id x) (off + int i) r = (res1, r1)"
    by (cases "remoteUpdateItemPosition (img_id x) (off + int i) r")
  show ?case
  proof (cases res1)
    case (Inl e)
    with w Cons.prems(1) have "r' = r1" by (simp add: and_then_def)
    moreover from w Inl have "rows r1 = rows r"
      by (auto simp: remoteUpdateItemPosition_def issue_def Let_def
               split: list.splits option.splits if_splits)
    ultimately show ?thesis using Cons.prems(2,3) by simp
  next
    case (Inr u)
    with w Cons.prems(1) have rest: "writePositions off (Suc i) xs r1 = (res, r')"
      by (simp add: and_then_def)
    from accepted_write_keeps_unique[OF w[unfolded Inr] Cons.prems(2,3)]
    show ?thesis using Cons.IH[OF rest] by simp
  qed
qed

section \<open>Facts about delete\<close>

lemma normalizePositions_renumber: "normalizePositions xs = renumber (sortByPosition xs)"
  by (simp add: normalizePositions_def renumber_def)

lemma sortByPosition_sorted: "sorted (map position xs) \<Longrightarrow> sortByPosition xs = xs"
  by (simp add: sortByPosition_def sort_key_id_if_sorted)

lemma filter_ne_nth:
  "distinct (map f xs) \<Longrightarrow> i < length xs \<Longrightarrow>
   filter (\<lambda>x. f x \<noteq> f (xs ! i)) xs = take i xs @ drop (Suc i) xs"
proof (induction xs arbitrary: i)
  case Nil
  then show ?case by simp
next
  case (Cons a xs)
  show ?case
  proof (cases i)
    case 0
    have "filter (\<lambda>x. f x \<noteq> f a) xs = xs"
      using Cons.prems(1) by (intro filter_True) (auto simp: image_iff)
    with 0 show ?thesis by simp
  next
    case (Suc k)
    with Cons.prems have "f a \<noteq> f (xs ! k)" by auto
    with Suc Cons.IH[of k] Cons.prems show ?thesis by simp
  qed
qed

lemma remoteDeleteItem_ok:
  "remoteDeleteItem x r = (Inr u, r') \<Longrightarrow>
   rows r' = filter (\<lambda>\<rho>. img_id \<rho> \<noteq> x) (rows r) \<and> calls r' = calls r @ [DeleteImage x]"
  by (auto simp: remoteDeleteItem_def issue_def Let_def split: list.splits option.splits)

lemma remoteDeleteItem_no_faults:
  "faults r = [] \<Longrightarrow>
   remoteDeleteItem x r =
     (Inr (), r\<lparr>calls := calls r @ [DeleteImage x], rows := filter (\<lambda>\<rho>. img_id \<rho> \<noteq> x) (rows r)\<rparr>)"
  by (simp add: remoteDeleteItem_def)

lemma remoteListItems_no_faults:
  "faults r = [] \<Longrightarrow>
   remoteListItems r = (Inr (sortByPosition (rows r)), r\<lparr>calls := calls r @ [SelectImages]\<rparr>)"
  by (simp add: remoteListItems_def sortByPosition_def)

lemma sortByPosition_filter:
  "sortByPosition (filter P xs) = filter P (sortByPosition xs)"
  by (simp add: sortByPosition_def filter_sort)

lemma mset_sortByPosition [simp]: "mset (sortByPosition xs) = mset xs"
  by (simp add: sortByPosition_def)

lemma set_sortByPosition [simp]: "set (sortByPosition xs) = set xs"
  by (simp add: sortByPosition_def)

lemma distinct_ids_sortByPosition [simp]:
  "distinct (map img_id (sortByPosition xs)) = distinct (map img_id xs)"
proof -
  have "mset (map img_id (sortByPosition xs)) = mset (map img_id xs)" by simp
  then show ?thesis by (rule mset_eq_imp_distinct_iff)
qed

lemma deleteMutation_outcome:
  assumes "deleteMutation_mutationFn img r = (Inr u, r')" "distinct (map img_id (rows r))"
  shows "sortByPosition (rows r') =
         renumber (filter (\<lambda>x. img_id x \<noteq> img_id img) (sortByPosition (rows r)))"
proof -
  from assms(1) obtain r1 rs r2 where
    d: "remoteDeleteItem (img_id img) r = (Inr (), r1)" and
    l: "remoteListItems r1 = (Inr rs, r2)" and
    t: "twoPhase rs r2 = (Inr u, r')"
    by (auto simp: deleteMutation_mutationFn_def and_then_def split: prod.splits sum.splits)
  have rows1: "rows r1 = filter (\<lambda>\<rho>. img_id \<rho> \<noteq> img_id img) (rows r)"
    using remoteDeleteItem_ok[OF d] by simp
  have rows2: "rows r2 = rows r1" using remoteListItems_rows[OF l] by simp
  have rs: "rs = sortByPosition (rows r1)" using remoteListItems_value[OF l] .
  have "distinct (map img_id rs)" using assms(2) by (simp add: rs rows1 distinct_map_filter)
  moreover have "mset (rows r2) = mset rs" by (simp add: rs rows2)
  ultimately have "sortByPosition (rows r') = renumber rs" using twoPhase_outcome[OF t] by simp
  then show ?thesis by (simp add: rs rows1 sortByPosition_filter)
qed

lemma deleteMutation_succeeds:
  assumes "faults r = []" "list_all (\<lambda>\<rho>. position \<rho> < 1000) (rows r)"
    "distinct (map img_id (rows r))"
  shows "\<exists>r'. deleteMutation_mutationFn img r = (Inr (), r') \<and> faults r' = []"
proof -
  let ?r2 = "r\<lparr>calls := calls r @ [DeleteImage (img_id img)],
                rows := filter (\<lambda>\<rho>. img_id \<rho> \<noteq> img_id img) (rows r),
                calls := (calls r @ [DeleteImage (img_id img)]) @ [SelectImages]\<rparr>"
  let ?rs = "sortByPosition (filter (\<lambda>\<rho>. img_id \<rho> \<noteq> img_id img) (rows r))"
  have "faults ?r2 = []" using assms(1) by simp
  moreover have "distinct (map img_id ?rs)" using assms(3) by (simp add: distinct_map_filter)
  moreover have "set (map img_id (rows ?r2)) \<subseteq> set (map img_id ?rs)" by simp
  moreover have "list_all (\<lambda>\<rho>. position \<rho> < 1000) (rows ?r2)"
    using assms(2) by (simp add: list_all_iff)
  ultimately obtain r' where "twoPhase ?rs ?r2 = (Inr (), r')" "faults r' = []"
    using twoPhase_succeeds by blast
  then show ?thesis
    using assms(1)
    by (simp add: deleteMutation_mutationFn_def and_then_def remoteDeleteItem_no_faults
        remoteListItems_no_faults)
qed

lemma deleteMutation_onMutate_sorted:
  assumes "sorted (map position xs)"
  shows "deleteMutation_onMutate img (Some xs) =
         (xs, Some (renumber (filter (\<lambda>x. img_id x \<noteq> img_id img) xs)))"
  using assms
  by (simp add: deleteMutation_onMutate_def getQueryData_def normalizePositions_renumber
      sortByPosition_sorted sorted_filter Let_def)

section \<open>Lists that are already renumbered\<close>

lemma renumber_nth:
  "j < length xs \<Longrightarrow> renumber xs ! j = (xs ! j)\<lparr>position := int j\<rparr>"
  by (simp add: renumber_def nth_enumerate_eq)

lemma length_renumber [simp]: "length (renumber xs) = length xs"
  by (simp add: renumber_def)

lemma renumber_fixed:
  assumes "map position xs = map int [0..<length xs]"
  shows "renumber xs = xs"
proof (rule nth_equalityI)
  show "length (renumber xs) = length xs" by simp
  fix j assume "j < length (renumber xs)"
  then have j: "j < length xs" by simp
  from assms have "map position xs ! j = map int [0..<length xs] ! j" by simp
  with j have "position (xs ! j) = int j" by simp
  with j show "renumber xs ! j = xs ! j" by (simp add: renumber_nth)
qed

lemma sorted_upto_positions:
  "map position xs = map int [0..<length xs] \<Longrightarrow> sorted (map position xs)"
  by (simp add: sorted_map)

section \<open>Gapless positions after the optimistic uploader's delete and set-cover\<close>

lemma map_sort_key: "map f (sort_key f xs) = sort (map f xs)"
proof -
  have "sort (map f xs) = map f (sort_key f xs)"
    by (rule properties_for_sort) simp_all
  then show ?thesis by simp
qed

lemma gapless_renumbered:
  assumes "sortByPosition rs = renumber ys"
  shows "gapless rs"
proof -
  have "length rs = length (sortByPosition rs)" by (simp add: sortByPosition_def)
  with assms have len: "length rs = length ys" by simp
  have "sort (map position rs) = map position (sortByPosition rs)"
    by (simp add: sortByPosition_def map_sort_key)
  with assms len show ?thesis by (simp add: gapless_def map_position_renumber)
qed

lemma deleteMutation_gapless:
  assumes "deleteMutation_mutationFn img r = (Inr u, r')" "distinct (map img_id (rows r))"
  shows "gapless (rows r')"
  using deleteMutation_outcome[OF assms] by (rule gapless_renumbered)

lemma setCoverMutation_outcome:
  assumes "setCoverMutation_mutationFn img r = (Inr u, r')" "distinct (map img_id (rows r))"
    and "0 < findIndex (\<lambda>x. img_id x = img_id img) (sortByPosition (rows r))"
  shows "sortByPosition (rows r') =
         renumber (moveToFront (nat (findIndex (\<lambda>x. img_id x = img_id img) (sortByPosition (rows r))))
                     (sortByPosition (rows r)))"
proof -
  let ?xs = "sortByPosition (rows r)"
  let ?idx = "findIndex (\<lambda>x. img_id x = img_id img) ?xs"
  from assms(1) obtain rs r1 where
    l: "remoteListItems r = (Inr rs, r1)" and
    rest: "(let idx = findIndex (\<lambda>x. img_id x = img_id img) rs
            in if idx \<le> 0 then done_io () else twoPhase (moveToFront (nat idx) rs)) r1 = (Inr u, r')"
    by (auto simp: setCoverMutation_mutationFn_def and_then_def split: prod.splits sum.splits)
  have rs: "rs = ?xs" using remoteListItems_value[OF l] .
  have rows1: "rows r1 = rows r" using remoteListItems_rows[OF l] by simp
  from rest assms(3) have t: "twoPhase (moveToFront (nat ?idx) ?xs) r1 = (Inr u, r')"
    by (simp add: rs Let_def)
  have n: "nat ?idx < length ?xs" using findIndex_nth[of "\<lambda>x. img_id x = img_id img" ?xs] assms(3)
    by simp
  have m: "mset (moveToFront (nat ?idx) ?xs) = mset ?xs"
  proof -
    have "?xs = take (nat ?idx) ?xs @ ?xs ! nat ?idx # drop (Suc (nat ?idx)) ?xs"
      using n by (rule id_take_nth_drop)
    then have "mset ?xs = mset (take (nat ?idx) ?xs @ ?xs ! nat ?idx # drop (Suc (nat ?idx)) ?xs)"
      by simp
    then show ?thesis by (simp add: moveToFront_def filterIndexNot_eq)
  qed
  have "distinct (map img_id (moveToFront (nat ?idx) ?xs))"
  proof -
    have "mset (map img_id (moveToFront (nat ?idx) ?xs)) = mset (map img_id (rows r))"
      using m by (metis mset_map mset_sortByPosition)
    with assms(2) show ?thesis by (metis mset_eq_imp_distinct_iff)
  qed
  moreover have "mset (rows r1) = mset (moveToFront (nat ?idx) ?xs)" using m by (simp add: rows1)
  ultimately show ?thesis using twoPhase_outcome[OF t] by simp
qed

lemma setCoverMutation_gapless:
  assumes "setCoverMutation_mutationFn img r = (Inr u, r')" "distinct (map img_id (rows r))"
    and "gapless (rows r)"
  shows "gapless (rows r')"
proof (cases "0 < findIndex (\<lambda>x. img_id x = img_id img) (sortByPosition (rows r))")
  case True
  from setCoverMutation_outcome[OF assms(1,2) True] show ?thesis by (rule gapless_renumbered)
next
  case False
  from assms(1) obtain rs r1 where
    l: "remoteListItems r = (Inr rs, r1)" and
    rest: "(let idx = findIndex (\<lambda>x. img_id x = img_id img) rs
            in if idx \<le> 0 then done_io () else twoPhase (moveToFront (nat idx) rs)) r1 = (Inr u, r')"
    by (auto simp: setCoverMutation_mutationFn_def and_then_def split: prod.splits sum.splits)
  have "rs = sortByPosition (rows r)" using remoteListItems_value[OF l] .
  with rest False have "r' = r1" by (simp add: Let_def done_io_def)
  with remoteListItems_rows[OF l] assms(3) show ?thesis by simp
qed

section \<open>What the optimistic update of set-cover stores\<close>

text \<open>Sorting the list with the target moved to the front gives the sorted list again
  when the positions are distinct, so \<^verbatim>\<open>onMutate\<close> stores the old order.\<close>

lemma sortByPosition_moveToFront:
  assumes "distinct (map position xs)" and "idx < length xs"
  shows "sortByPosition (moveToFront idx xs) = sortByPosition xs"
  unfolding sortByPosition_def
proof (rule sort_key_unique)
  have "xs = take idx xs @ xs ! idx # drop (Suc idx) xs"
    using assms(2) by (rule id_take_nth_drop)
  then have "mset xs = mset (take idx xs @ xs ! idx # drop (Suc idx) xs)" by simp
  then show "mset (moveToFront idx xs) = mset (sort_key position xs)"
    by (simp add: moveToFront_def filterIndexNot_eq)
  show "sorted (map position (sort_key position xs))" by simp
  have "mset (map position (sort_key position xs)) = mset (map position xs)" by simp
  with assms(1) show "distinct (map position (sort_key position xs))"
    by (metis mset_eq_imp_distinct_iff)
qed

lemma setCover_optimistic_update_never_reorders:
  assumes "distinct (map position (getQueryData c))"
  shows "snd (setCoverMutation_onMutate img c) = c
       \<or> snd (setCoverMutation_onMutate img c) = Some (normalizePositions (getQueryData c))"
proof -
  let ?xs = "sortByPosition (getQueryData c)"
  let ?idx = "findIndex (\<lambda>x. img_id x = img_id img) ?xs"
  show ?thesis
  proof (cases "?idx \<le> 0")
    case True
    then show ?thesis by (simp add: setCoverMutation_onMutate_def Let_def)
  next
    case False
    then have n: "nat ?idx < length ?xs"
      using findIndex_nth[of "\<lambda>x. img_id x = img_id img" ?xs] by simp
    have "mset (map position ?xs) = mset (map position (getQueryData c))"
      by (simp add: sortByPosition_def)
    with assms have d: "distinct (map position ?xs)" by (metis mset_eq_imp_distinct_iff)
    have "sortByPosition (moveToFront (nat ?idx) ?xs) = sortByPosition ?xs"
      using sortByPosition_moveToFront[OF d n] .
    also have "\<dots> = ?xs"
      by (rule sortByPosition_sorted) (simp add: sortByPosition_def)
    finally have "normalizePositions (moveToFront (nat ?idx) ?xs)
                  = normalizePositions (getQueryData c)"
      by (simp add: normalizePositions_renumber)
    with False show ?thesis by (simp add: setCoverMutation_onMutate_def Let_def)
  qed
qed

section \<open>Rollback of failed mutations\<close>

text \<open>A step that fails ends the remote phase; the image mutations then put the snapshot
  back and show their message; a failed toggle puts a snapshot back that is a set.\<close>

lemma and_then_fail: "m r = (Inl e, r') \<Longrightarrow> and_then m f r = (Inl e, r')"
  by (simp add: and_then_def)

lemma runImageMutation_failed:
  assumes "onMutate c = (prev, c1)" and "mutationFn r = (Inl e, r')"
  shows "runImageMutation fallback onMutate mutationFn c r
           = \<lparr>cacheAfter = Some prev, errorMsg = Some (fallback, e), remoteAfter = r',
              cacheSettled = Some prev, remoteSettled = r'\<rparr>"
  using assms by (simp add: runImageMutation_def images_onError_def)

lemma snapshot_is_cache_value:
  "fst (deleteMutation_onMutate img c) = getQueryData c"
  "fst (reorderMutation_onMutate a b c) = getQueryData c"
  "fst (setCoverMutation_onMutate img c) = getQueryData c"
  by (simp_all add: deleteMutation_onMutate_def reorderMutation_onMutate_def
      setCoverMutation_onMutate_def Let_def)

lemma image_mutations_roll_back:
  "deleteMutation_mutationFn img r = (Inl e, r') \<Longrightarrow>
     runDelete img c r = \<lparr>cacheAfter = Some (getQueryData c),
                            errorMsg = Some (''Delete failed'', e), remoteAfter = r',
                            cacheSettled = Some (getQueryData c), remoteSettled = r'\<rparr>"
  "reorderMutation_mutationFn a b r = (Inl e, r') \<Longrightarrow>
     runReorder a b c r = \<lparr>cacheAfter = Some (getQueryData c),
                             errorMsg = Some (''Reorder failed'', e), remoteAfter = r',
                             cacheSettled = Some (getQueryData c), remoteSettled = r'\<rparr>"
  "setCoverMutation_mutationFn img r = (Inl e, r') \<Longrightarrow>
     runSetCover img c r = \<lparr>cacheAfter = Some (getQueryData c),
                              errorMsg = Some (''Set cover failed'', e), remoteAfter = r',
                              cacheSettled = Some (getQueryData c), remoteSettled = r'\<rparr>"
  by (simp_all add: runDelete_def runReorder_def runSetCover_def runImageMutation_def
      images_onError_def deleteMutation_onMutate_def reorderMutation_onMutate_def
      setCoverMutation_onMutate_def Let_def)

lemma swap_second_write_fails:
  "runReorder (mkImage ''X'' 0) (mkImage ''Y'' 1)
     (Some [mkImage ''X'' 0, mkImage ''Y'' 1, mkImage ''Z'' 2])
     \<lparr>rows = [mkImage ''X'' 0, mkImage ''Y'' 1, mkImage ''Z'' 2],
       faults = [None, Some NetworkFailure], calls = []\<rparr>
   = \<lparr>cacheAfter = Some [mkImage ''X'' 0, mkImage ''Y'' 1, mkImage ''Z'' 2],
      errorMsg = Some (''Reorder failed'', NetworkFailure),
      remoteAfter = \<lparr>rows = [mkImage ''X'' (- 999999), mkImage ''Y'' 1, mkImage ''Z'' 2],
                      faults = [],
                      calls = [UpdatePosition ''X'' (- 999999), UpdatePosition ''Y'' 0]\<rparr>,
      cacheSettled = Some [mkImage ''X'' 0, mkImage ''Y'' 1, mkImage ''Z'' 2],
      remoteSettled = \<lparr>rows = [mkImage ''X'' (- 999999), mkImage ''Y'' 1, mkImage ''Z'' 2],
                        faults = [],
                        calls = [UpdatePosition ''X'' (- 999999), UpdatePosition ''Y'' 0]\<rparr>\<rparr>"
  by (simp add: runReorder_def runImageMutation_def reorderMutation_onMutate_def
      reorderMutation_mutationFn_def and_then_def remoteUpdateItemPosition_def issue_def
      collides_def setPosition_def images_onError_def getQueryData_def temp_def mkImage_def
      Let_def)

lemma toggle_rolls_back_defined_snapshot:
  assumes "userId s = Some u" and "togglesInFlight s = []" and "renderedPending s = False"
    and "favCache s = Some S" and "fav_faults (favRemote s) = Some e # fs"
  shows "favCache (settleFavorite (clickFavorite l s)) = Some S"
  using assms
  by (simp add: clickFavorite_def favoriteButtonDisabled_def toggleFavorite_onMutate_def
      settleFavorite_def toggleFavorite_mutationFn_def remoteInsertMembership_def
      remoteDeleteMembership_def fav_issue_def toggleFavorite_onError_def Let_def)

text \<open>When the remote phase has gone through and the fetch after it meets no fault, the
  cache entry is the remote rows ordered by position.\<close>

lemma runImageMutation_settled:
  assumes "mutationFn r = (Inr u, r')" and "faults r' = []"
  shows "cacheSettled (runImageMutation fallback onMutate mutationFn c r)
           = Some (sortByPosition (rows r'))"
  using assms
  by (cases "onMutate c")
     (simp add: runImageMutation_def refetchImages_def remoteListItems_no_faults)

section \<open>Disabled buttons\<close>

lemma buttons_disabled_while_pending:
  "isPending DeleteKind s \<Longrightarrow> clickRemove i s = s"
  "isPending SetCoverKind s \<Longrightarrow> clickSetCover i s = s"
  "anyReorderBusy s \<Longrightarrow> clickMoveUp i s = s"
  "anyReorderBusy s \<Longrightarrow> clickMoveDown i s = s"
  by (simp_all add: clickRemove_def clickSetCover_def clickMoveUp_def clickMoveDown_def Let_def)

lemma clickFavorite_pending:
  "renderedPending s \<Longrightarrow> clickFavorite l s = s"
  by (simp add: clickFavorite_def favoriteButtonDisabled_def)

text \<open>On the listings page the one button condition covers every toggle: once the page has
  rendered with a toggle in flight, a click starts no second one.\<close>

lemma favorites_click_after_render:
  "togglesInFlight s \<noteq> [] \<Longrightarrow> clickFavorite l (renderPage s) = renderPage s"
  by (simp add: clickFavorite_def favoriteButtonDisabled_def renderPage_def)

section \<open>Delete in the uploader without optimistic updates (C1)\<close>

text \<open>
  Claim C1, evaluated where it fails.  The rows \<open>X, Y, Z\<close> at positions \<open>0, 1, 2\<close> are
  gapless.  \<^verbatim>\<open>deleteMutation.mutationFn\<close> of
  \<^verbatim>\<open>src/features/listings/components/ListingImageUploader.tsx\<close> for \<open>Y\<close> completes
  with success and leaves \<open>X, Z\<close> at positions \<open>0, 2\<close>, which are not gapless.  (For the
  optimistic uploader, \<open>deleteMutation_gapless\<close> and \<open>setCoverMutation_gapless\<close> above
  show that a completed delete or set-cover leaves gapless positions.)
\<close>

theorem uploader_delete_without_renumbering:
  "gapless [mkImage ''X'' 0, mkImage ''Y'' 1, mkImage ''Z'' 2]
   \<and> ListingImageUploader_deleteMutation_mutationFn (mkImage ''Y'' 1)
         (store [mkImage ''X'' 0, mkImage ''Y'' 1, mkImage ''Z'' 2])
       = (Inr (), \<lparr>rows = [mkImage ''X'' 0, mkImage ''Z'' 2], faults = [],
                     calls = [DeleteImage ''Y'']\<rparr>)
   \<and> \<not> gapless [mkImage ''X'' 0, mkImage ''Z'' 2]"
  by (simp add: gapless_def mkImage_def store_def ListingImageUploader_deleteMutation_mutationFn_def
      remoteDeleteItem_def issue_def Let_def upt_rec)

section \<open>The pairwise swap (C2)\<close>



section \<open>Renumbering in the listing form (C3)\<close>

text \<open>
  Claim C3, evaluated where it fails.  The rows \<open>A, B\<close> are at positions \<open>0, 1\<close>.  In
  the form, moving \<open>B\<close> up makes it the cover; on save, \<^verbatim>\<open>updateImagePositions\<close>
  writes the new indices one row after the other, and the first write, \<open>B := 0\<close>, is
  refused because \<open>A\<close> still holds position \<open>0\<close>.  (For the loops of the optimistic
  uploader, \<open>twoPhase_succeeds\<close>, \<open>writePositions_keeps_unique\<close> and
  \<open>twoPhase_outcome\<close> above show that every write is accepted, that no two rows share a
  position wherever a loop stops, and that the rows end at \<open>0, ..., n - 1\<close> in the
  chosen order.)
\<close>

theorem form_save_collides:
  "moveExisting [] 1 0 [mkImage ''A'' 0, mkImage ''B'' 1] = [mkImage ''B'' 1, mkImage ''A'' 0]
   \<and> saveExistingImages [mkImage ''B'' 1, mkImage ''A'' 0] []
         (store [mkImage ''A'' 0, mkImage ''B'' 1])
       = (Inl ConstraintViolation,
          \<lparr>rows = [mkImage ''A'' 0, mkImage ''B'' 1], faults = [],
            calls = [UpdatePosition ''B'' 0]\<rparr>)"
  by (simp add: moveExisting_def saveExistingImages_def deleteListingImageRows_def and_then_def
      done_io_def remoteUpdateItemPosition_def issue_def collides_def store_def mkImage_def
      enumerate_eq_zip Let_def)

section \<open>The optimistic update of set-cover (C4)\<close>

text \<open>
  Claim C4, evaluated where it fails.  With \<open>X, Y, Z\<close> cached at positions
  \<open>0, 1, 2\<close>, \<^verbatim>\<open>setCoverMutation.onMutate\<close> for \<open>Z\<close> leaves the cache in the order
  \<open>X, Y, Z\<close>: \<^verbatim>\<open>normalizePositions\<close> sorts the reordered list by the positions the
  images still carry before it renumbers them.  (\<open>setCover_optimistic_update_never_reorders\<close>
  above shows this for every cache with distinct positions; \<open>setCoverMutation_outcome\<close>
  shows that the remote phase does move the target to the front.)
\<close>

theorem setCover_optimistic_update_keeps_order:
  "setCoverMutation_onMutate (mkImage ''Z'' 2) (Some [mkImage ''X'' 0, mkImage ''Y'' 1, mkImage ''Z'' 2])
     = ([mkImage ''X'' 0, mkImage ''Y'' 1, mkImage ''Z'' 2],
        Some [mkImage ''X'' 0, mkImage ''Y'' 1, mkImage ''Z'' 2])"
  by (simp add: setCoverMutation_onMutate_def getQueryData_def sortByPosition_def
      normalizePositions_def moveToFront_def filterIndexNot_def mkImage_def Let_def enumerate_eq_zip)

section \<open>Delete closes the gap (C5)\<close>

text \<open>
  Claim C5 as stated fails for the remote renumbering.  With rows \<open>X, Y, Z\<close> at positions
  \<open>0, 1, 1000\<close> (what a set-cover leaves behind when its first loop is cut short after
  one write), deleting \<open>X\<close> removes the row, but the renumbering of \<open>Y, Z\<close> is refused
  at its first write \<open>Y := 1000\<close>, where \<open>Z\<close> sits: the operation ends in an error and
  the rows stay at positions \<open>1, 1000\<close> instead of \<open>0, 1\<close>.
\<close>

theorem delete_closes_gap_counterexample:
  "sortByPosition (rows (store [mkImage ''X'' 0, mkImage ''Y'' 1, mkImage ''Z'' 1000]))
     = [mkImage ''X'' 0, mkImage ''Y'' 1, mkImage ''Z'' 1000]
   \<and> deleteMutation_mutationFn (mkImage ''X'' 0)
         (store [mkImage ''X'' 0, mkImage ''Y'' 1, mkImage ''Z'' 1000])
       = (Inl ConstraintViolation,
          \<lparr>rows = [mkImage ''Y'' 1, mkImage ''Z'' 1000], faults = [],
            calls = [DeleteImage ''X'', SelectImages, UpdatePosition ''Y'' 1000]\<rparr>)
   \<and> renumber (take 0 [mkImage ''X'' 0, mkImage ''Y'' 1, mkImage ''Z'' 1000]
                 @ drop (Suc 0) [mkImage ''X'' 0, mkImage ''Y'' 1, mkImage ''Z'' 1000])
       = [mkImage ''Y'' 0, mkImage ''Z'' 1]
   \<and> sortByPosition [mkImage ''Y'' 1, mkImage ''Z'' 1000] \<noteq> [mkImage ''Y'' 0, mkImage ''Z'' 1]"
  by (simp add: deleteMutation_mutationFn_def and_then_def remoteDeleteItem_def
      remoteListItems_def issue_def store_def twoPhase_def remoteUpdateItemPosition_def
      collides_def sortByPosition_def renumber_def mkImage_def enumerate_eq_zip Let_def)

text \<open>
  Claim C5 as amended.  Let \<open>xs\<close> be the listing's rows ordered by position (ids are the
  primary key) and the cache entry, and let \<open>xs ! i\<close> be deleted.  \<^verbatim>\<open>onMutate\<close> stores
  the other images in their order at positions \<open>0, 1, ...\<close>; whenever the remote phase
  completes, the remote rows ordered by position are that same list; and when no call
  meets a transport fault and every position is below the offset 1000, the remote phase
  does complete and leaves that list.
\<close>

theorem delete_closes_gap:
  assumes "sortByPosition (rows r) = xs" and "distinct (map img_id (rows r))" and "i < length xs"
  shows "deleteMutation_onMutate (xs ! i) (Some xs)
           = (xs, Some (renumber (take i xs @ drop (Suc i) xs)))
       \<and> (\<forall>u r'. deleteMutation_mutationFn (xs ! i) r = (Inr u, r') \<longrightarrow>
             sortByPosition (rows r') = renumber (take i xs @ drop (Suc i) xs))
       \<and> (faults r = [] \<and> list_all (\<lambda>\<rho>. position \<rho> < 1000) (rows r) \<longrightarrow>
             (\<exists>r'. deleteMutation_mutationFn (xs ! i) r = (Inr (), r')
                 \<and> sortByPosition (rows r') = renumber (take i xs @ drop (Suc i) xs)))"
proof -
  have dx: "distinct (map img_id xs)" using assms(1,2) by (simp flip: assms(1))
  have sx: "sorted (map position xs)" by (simp flip: assms(1) add: sortByPosition_def)
  have f: "filter (\<lambda>x. img_id x \<noteq> img_id (xs ! i)) xs = take i xs @ drop (Suc i) xs"
    using filter_ne_nth[OF dx assms(3)] .
  have "deleteMutation_onMutate (xs ! i) (Some xs)
           = (xs, Some (renumber (take i xs @ drop (Suc i) xs)))"
    using deleteMutation_onMutate_sorted[OF sx, of "xs ! i"] f by simp
  moreover have out: "\<forall>u r'. deleteMutation_mutationFn (xs ! i) r = (Inr u, r') \<longrightarrow>
             sortByPosition (rows r') = renumber (take i xs @ drop (Suc i) xs)"
    using deleteMutation_outcome[OF _ assms(2), of "xs ! i"] f assms(1) by simp
  moreover have "faults r = [] \<and> list_all (\<lambda>\<rho>. position \<rho> < 1000) (rows r) \<longrightarrow>
             (\<exists>r'. deleteMutation_mutationFn (xs ! i) r = (Inr (), r')
                 \<and> sortByPosition (rows r') = renumber (take i xs @ drop (Suc i) xs))"
  proof
    assume "faults r = [] \<and> list_all (\<lambda>\<rho>. position \<rho> < 1000) (rows r)"
    with deleteMutation_succeeds[OF _ _ assms(2), of "xs ! i"]
    obtain r' where "deleteMutation_mutationFn (xs ! i) r = (Inr (), r')" by blast
    with out show "\<exists>r'. deleteMutation_mutationFn (xs ! i) r = (Inr (), r')
                 \<and> sortByPosition (rows r') = renumber (take i xs @ drop (Suc i) xs)"
      by blast
  qed
  ultimately show ?thesis by blast
qed

theorem delete_closes_gap_witness:
  "sortByPosition (rows (store [mkImage ''X'' 0, mkImage ''Y'' 1, mkImage ''Z'' 2]))
     = [mkImage ''X'' 0, mkImage ''Y'' 1, mkImage ''Z'' 2]
   \<and> distinct (map img_id (rows (store [mkImage ''X'' 0, mkImage ''Y'' 1, mkImage ''Z'' 2])))
   \<and> (1::nat) < length [mkImage ''X'' 0, mkImage ''Y'' 1, mkImage ''Z'' 2]
   \<and> faults (store [mkImage ''X'' 0, mkImage ''Y'' 1, mkImage ''Z'' 2]) = []
   \<and> list_all (\<lambda>\<rho>. position \<rho> < 1000)
         (rows (store [mkImage ''X'' 0, mkImage ''Y'' 1, mkImage ''Z'' 2]))
   \<and> deleteMutation_onMutate (mkImage ''Y'' 1) (Some [mkImage ''X'' 0, mkImage ''Y'' 1, mkImage ''Z'' 2])
       = ([mkImage ''X'' 0, mkImage ''Y'' 1, mkImage ''Z'' 2], Some [mkImage ''X'' 0, mkImage ''Z'' 1])
   \<and> (\<exists>r'. deleteMutation_mutationFn (mkImage ''Y'' 1) (store [mkImage ''X'' 0, mkImage ''Y'' 1, mkImage ''Z'' 2])
              = (Inr (), r')
            \<and> sortByPosition (rows r') = [mkImage ''X'' 0, mkImage ''Z'' 1])"
proof -
  let ?xs = "[mkImage ''X'' 0, mkImage ''Y'' 1, mkImage ''Z'' 2]"
  have h1: "sortByPosition (rows (store ?xs)) = ?xs"
    by (simp add: sortByPosition_def store_def mkImage_def)
  have h2: "distinct (map img_id (rows (store ?xs)))"
    by (simp add: store_def mkImage_def)
  have h3: "(1::nat) < length ?xs" by simp
  have e: "renumber (take 1 ?xs @ drop (Suc 1) ?xs) = [mkImage ''X'' 0, mkImage ''Z'' 1]"
    by (simp add: renumber_def mkImage_def enumerate_eq_zip)
  have n: "?xs ! 1 = mkImage ''Y'' 1" by simp
  have ok: "faults (store ?xs) = [] \<and> list_all (\<lambda>\<rho>. position \<rho> < 1000) (rows (store ?xs))"
    by (simp add: store_def mkImage_def)
  from delete_closes_gap[OF h1 h2 h3] ok
  obtain r' where "deleteMutation_mutationFn (?xs ! 1) (store ?xs) = (Inr (), r')"
    and "sortByPosition (rows r') = renumber (take 1 ?xs @ drop (Suc 1) ?xs)"
    by blast
  with delete_closes_gap[OF h1 h2 h3] h1 h2 h3 ok show ?thesis
    unfolding e n by blast
qed

section \<open>Rollback of a failed favorite toggle (C6)\<close>

text \<open>
  Claim C6, evaluated where it fails.  The cache entry of the favorites query is not there
  yet (\<^verbatim>\<open>undefined\<close>), the user clicks the heart of listing \<open>L\<close>, and the insert meets
  a network failure.  \<^verbatim>\<open>onMutate\<close> has stored \<open>{L}\<close> and returned the snapshot
  \<^verbatim>\<open>undefined\<close>; \<^verbatim>\<open>onError\<close> restores the snapshot only when it is truthy, so the
  cache keeps \<open>{L}\<close> although the table holds no such favorite.  (For the image
  mutations, \<open>image_mutations_roll_back\<close> above shows that a failed remote phase puts the
  snapshot back and sets the message, and \<open>toggle_rolls_back_defined_snapshot\<close> that a
  failed toggle puts back a snapshot that is a set.)
\<close>

theorem failed_toggle_keeps_speculative_cache:
  "favCache (clickFavorite ''L'' (page (Some ''u'') None [Some NetworkFailure])) = Some {''L''}
   \<and> togglesInFlight (clickFavorite ''L'' (page (Some ''u'') None [Some NetworkFailure]))
       = [(''L'', None, None)]
   \<and> settleFavorite (clickFavorite ''L'' (page (Some ''u'') None [Some NetworkFailure]))
       = \<lparr>userId = Some ''u'', favCache = Some {''L''}, renderedFavSet = None,
          renderedPending = False, togglesInFlight = [],
          favRemote = \<lparr>favorites = [], fav_faults = [], fav_calls = [InsertFavorite ''u'' ''L'']\<rparr>\<rparr>"
  by (simp add: clickFavorite_def favoriteButtonDisabled_def toggleFavorite_onMutate_def
      settleFavorite_def toggleFavorite_mutationFn_def remoteInsertMembership_def fav_issue_def
      toggleFavorite_onError_def page_def Let_def)

section \<open>Two snapshots for one listing (C7)\<close>

text \<open>
  Claim C7, evaluated where it fails.  With \<open>X, Y, Z\<close> cached at \<open>0, 1, 2\<close>: moving
  \<open>X\<close> down starts a reorder (snapshot \<open>X, Y, Z\<close>; cache \<open>Y, X, Z\<close>); the remove
  button is disabled only while a delete is pending, so removing \<open>Z\<close> starts a delete
  while the reorder is in flight, with the speculative \<open>Y, X, Z\<close> as its snapshot.  Two
  snapshots are then held for the one cache key.  When the reorder fails the cache goes
  back to \<open>X, Y, Z\<close>; when the delete fails after it, the cache is set to \<open>Y, X, Z\<close>,
  the order of the reorder that was rolled back.  (\<open>buttons_disabled_while_pending\<close>
  above lists what each button does check; \<open>favorites_click_after_render\<close> shows that
  the heart button, once rendered with a toggle in flight, starts no second one.)
\<close>

theorem overlapping_mutations_restore_speculative_state:
  "imagesCache (clickMoveDown 0 (uploaderWith [mkImage ''X'' 0, mkImage ''Y'' 1, mkImage ''Z'' 2]))
     = Some [mkImage ''Y'' 0, mkImage ''X'' 1, mkImage ''Z'' 2]
   \<and> clickRemove 2 (clickMoveDown 0 (uploaderWith [mkImage ''X'' 0, mkImage ''Y'' 1, mkImage ''Z'' 2]))
     = \<lparr>imagesCache = Some [mkImage ''Y'' 0, mkImage ''X'' 1],
        inFlight = [(ReorderKind, [mkImage ''X'' 0, mkImage ''Y'' 1, mkImage ''Z'' 2]),
                    (DeleteKind, [mkImage ''Y'' 0, mkImage ''X'' 1, mkImage ''Z'' 2])]\<rparr>
   \<and> imagesCache (mutationFailed ReorderKind (clickRemove 2 (clickMoveDown 0
         (uploaderWith [mkImage ''X'' 0, mkImage ''Y'' 1, mkImage ''Z'' 2]))))
     = Some [mkImage ''X'' 0, mkImage ''Y'' 1, mkImage ''Z'' 2]
   \<and> mutationFailed DeleteKind (mutationFailed ReorderKind (clickRemove 2 (clickMoveDown 0
         (uploaderWith [mkImage ''X'' 0, mkImage ''Y'' 1, mkImage ''Z'' 2]))))
     = \<lparr>imagesCache = Some [mkImage ''Y'' 0, mkImage ''X'' 1, mkImage ''Z'' 2], inFlight = []\<rparr>"
  by (simp add: clickMoveDown_def clickRemove_def mutationFailed_def startMutation_def
      existingSorted_def anyReorderBusy_def isPending_def images_onError_def
      reorderMutation_onMutate_def deleteMutation_onMutate_def getQueryData_def
      sortByPosition_def normalizePositions_def uploaderWith_def mkImage_def enumerate_eq_zip
      Let_def)

section \<open>Two toggles of one favorite (C8)\<close>

text \<open>
  Claim C8 as stated fails on the page, whichever way the two clicks fall.  When the page
  has rendered again between them, the heart button is disabled and the second click
  changes nothing: the cache ends with the listing as a favorite and one remote call,
  the insert, was issued.  When it has not, the second toggle starts, takes the listing
  out of the cache, and its \<^verbatim>\<open>mutationFn\<close> reads the \<^verbatim>\<open>favSet\<close> of the last render,
  which does not hold the listing: it sends a second insert, the table refuses it, and
  \<^verbatim>\<open>onError\<close> puts the listing back into the cache.
\<close>

theorem rapid_double_toggle_counterexample:
  "clickFavorite ''L'' (renderPage (clickFavorite ''L'' (page (Some ''u'') (Some {}) [])))
     = renderPage (clickFavorite ''L'' (page (Some ''u'') (Some {}) []))
   \<and> favCache (settleFavorite (clickFavorite ''L''
         (renderPage (clickFavorite ''L'' (page (Some ''u'') (Some {}) []))))) = Some {''L''}
   \<and> fav_calls (favRemote (settleFavorite (clickFavorite ''L''
         (renderPage (clickFavorite ''L'' (page (Some ''u'') (Some {}) []))))))
       = [InsertFavorite ''u'' ''L'']
   \<and> favCache (clickFavorite ''L'' (clickFavorite ''L'' (page (Some ''u'') (Some {}) [])))
       = Some {}
   \<and> favCache (settleFavorite (settleFavorite
         (clickFavorite ''L'' (clickFavorite ''L'' (page (Some ''u'') (Some {}) []))))) = Some {''L''}
   \<and> fav_calls (favRemote (settleFavorite (settleFavorite
         (clickFavorite ''L'' (clickFavorite ''L'' (page (Some ''u'') (Some {}) []))))))
       = [InsertFavorite ''u'' ''L'', InsertFavorite ''u'' ''L'']"
  by (simp add: clickFavorite_def favoriteButtonDisabled_def toggleFavorite_onMutate_def
      settleFavorite_def toggleFavorite_mutationFn_def remoteInsertMembership_def fav_issue_def
      toggleFavorite_onError_def renderPage_def page_def Let_def)

text \<open>
  Claim C8 as amended.  For a signed-in user and a page rendered with no toggle in flight
  and a cache entry that does not hold the listing: the toggle puts the listing into the
  cache and sends the insert, whatever the table holds, and in general the call a toggle
  sends is decided by the rendered \<^verbatim>\<open>favSet\<close> alone (a delete when it holds the
  listing, an insert when not); once the page has rendered with the toggle pending, a
  click changes nothing; and when the table did not hold the favorite and no call meets
  a transport fault, a second toggle made after the first has resolved and the page has
  rendered takes the listing out of the cache again, and exactly two remote calls are
  issued, the insert and then the delete.
\<close>

theorem toggles_one_after_the_other:
  assumes "userId s = Some u" and "togglesInFlight s = []" and "renderedPending s = False"
    and "favCache s = Some S" and "renderedFavSet s = Some S" and "l \<notin> S"
  shows "let s1 = clickFavorite l s; s2 = settleFavorite s1;
             s3 = clickFavorite l (renderPage s2); s4 = settleFavorite s3
         in favCache s1 = Some (insert l S)
          \<and> fav_calls (favRemote s2) = fav_calls (favRemote s) @ [InsertFavorite u l]
          \<and> fav_calls (snd (toggleFavorite_mutationFn (Some u) (Some T) l' r))
              = fav_calls r @ [if l' \<in> T then DeleteFavorite u l' else InsertFavorite u l']
          \<and> clickFavorite l (renderPage s1) = renderPage s1
          \<and> (fav_faults (favRemote s) = [] \<and> (u, l) \<notin> set (favorites (favRemote s)) \<longrightarrow>
                favCache s3 = Some S
              \<and> favCache s4 = Some S
              \<and> togglesInFlight s4 = []
              \<and> fav_calls (favRemote s4)
                  = fav_calls (favRemote s) @ [InsertFavorite u l, DeleteFavorite u l])"
proof -
  define s1 where "s1 = clickFavorite l s"
  define s2 where "s2 = settleFavorite s1"
  define s3 where "s3 = clickFavorite l (renderPage s2)"
  define s4 where "s4 = settleFavorite s3"
  have s1: "s1 = s\<lparr>favCache := Some (insert l S), togglesInFlight := [(l, Some S, Some S)]\<rparr>"
    using assms
    by (simp add: s1_def clickFavorite_def favoriteButtonDisabled_def toggleFavorite_onMutate_def
        Let_def)
  have c1: "favCache s1 = Some (insert l S)" by (simp add: s1)
  have c2: "fav_calls (favRemote s2) = fav_calls (favRemote s) @ [InsertFavorite u l]"
    using assms(1,6)
    by (simp add: s2_def s1 settleFavorite_def toggleFavorite_mutationFn_def
        remoteInsertMembership_def fav_issue_def Let_def
        split: list.split option.split)
  have pin: "fav_calls (snd (toggleFavorite_mutationFn (Some u) (Some T) l' r))
              = fav_calls r @ [if l' \<in> T then DeleteFavorite u l' else InsertFavorite u l']"
    by (simp add: toggleFavorite_mutationFn_def remoteInsertMembership_def
        remoteDeleteMembership_def fav_issue_def Let_def
        split: list.split option.split)
  have blocked: "clickFavorite l (renderPage s1) = renderPage s1"
    by (rule favorites_click_after_render) (simp add: s1)
  have seq: "favCache s3 = Some S \<and> favCache s4 = Some S \<and> togglesInFlight s4 = []
              \<and> fav_calls (favRemote s4)
                  = fav_calls (favRemote s) @ [InsertFavorite u l, DeleteFavorite u l]"
    if nf: "fav_faults (favRemote s) = []" and ne: "(u, l) \<notin> set (favorites (favRemote s))"
  proof -
    have s2: "s2 = s\<lparr>favCache := Some (insert l S), togglesInFlight := [],
                     favRemote := (favRemote s)\<lparr>fav_calls := fav_calls (favRemote s) @ [InsertFavorite u l],
                                                 favorites := favorites (favRemote s) @ [(u, l)]\<rparr>\<rparr>"
      using assms(1,6) nf ne
      by (simp add: s2_def s1 settleFavorite_def toggleFavorite_mutationFn_def
          remoteInsertMembership_def fav_issue_def Let_def)
    have s3: "s3 = s2\<lparr>renderedFavSet := Some (insert l S), renderedPending := False,
                        favCache := Some S,
                        togglesInFlight := [(l, Some (insert l S), Some (insert l S))]\<rparr>"
      using assms(1,6)
      by (simp add: s3_def s2 clickFavorite_def favoriteButtonDisabled_def renderPage_def
          toggleFavorite_onMutate_def Let_def)
    have "favCache s4 = Some S \<and> togglesInFlight s4 = []
          \<and> fav_calls (favRemote s4)
              = fav_calls (favRemote s) @ [InsertFavorite u l, DeleteFavorite u l]"
      using assms(1) nf
      by (simp add: s4_def s3 s2 settleFavorite_def toggleFavorite_mutationFn_def
          remoteDeleteMembership_def fav_issue_def Let_def)
    moreover have "favCache s3 = Some S" by (simp add: s3)
    ultimately show ?thesis by blast
  qed
  have "favCache s1 = Some (insert l S)
          \<and> fav_calls (favRemote s2) = fav_calls (favRemote s) @ [InsertFavorite u l]
          \<and> fav_calls (snd (toggleFavorite_mutationFn (Some u) (Some T) l' r))
              = fav_calls r @ [if l' \<in> T then DeleteFavorite u l' else InsertFavorite u l']
          \<and> clickFavorite l (renderPage s1) = renderPage s1
          \<and> (fav_faults (favRemote s) = [] \<and> (u, l) \<notin> set (favorites (favRemote s)) \<longrightarrow>
                favCache s3 = Some S
              \<and> favCache s4 = Some S
              \<and> togglesInFlight s4 = []
              \<and> fav_calls (favRemote s4)
                  = fav_calls (favRemote s) @ [InsertFavorite u l, DeleteFavorite u l])"
    using c1 c2 pin blocked seq by blast
  then show ?thesis
    unfolding Let_def s1_def s2_def s3_def s4_def .
qed

theorem toggles_one_after_the_other_witness:
  "userId (page (Some ''u'') (Some {}) []) = Some ''u''
   \<and> togglesInFlight (page (Some ''u'') (Some {}) []) = []
   \<and> renderedPending (page (Some ''u'') (Some {}) []) = False
   \<and> favCache (page (Some ''u'') (Some {}) []) = Some {}
   \<and> renderedFavSet (page (Some ''u'') (Some {}) []) = Some {}
   \<and> ''L'' \<notin> ({} :: string set)
   \<and> fav_faults (favRemote (page (Some ''u'') (Some {}) [])) = []
   \<and> (''u'', ''L'') \<notin> set (favorites (favRemote (page (Some ''u'') (Some {}) [])))
   \<and> favCache (settleFavorite (clickFavorite ''L''
         (renderPage (settleFavorite (clickFavorite ''L'' (page (Some ''u'') (Some {}) []))))))
       = Some {}
   \<and> fav_calls (favRemote (settleFavorite (clickFavorite ''L''
         (renderPage (settleFavorite (clickFavorite ''L'' (page (Some ''u'') (Some {}) [])))))))
       = [InsertFavorite ''u'' ''L'', DeleteFavorite ''u'' ''L'']"
proof -
  let ?s = "page (Some ''u'') (Some {}) []"
  have h1: "userId ?s = Some ''u''" by (simp add: page_def)
  have h2: "togglesInFlight ?s = []" by (simp add: page_def)
  have h3: "renderedPending ?s = False" by (simp add: page_def)
  have h4: "favCache ?s = Some {}" by (simp add: page_def)
  have h5: "renderedFavSet ?s = Some {}" by (simp add: page_def)
  have h6: "''L'' \<notin> ({} :: string set)" by simp
  have h7: "fav_faults (favRemote ?s) = []" by (simp add: page_def)
  have h8: "(''u'', ''L'') \<notin> set (favorites (favRemote ?s))" by (simp add: page_def)
  have c: "fav_calls (favRemote ?s) = []" by (simp add: page_def)
  from toggles_one_after_the_other[OF h1 h2 h3 h4 h5 h6] h7 h8 c
  have "favCache (settleFavorite (clickFavorite ''L''
         (renderPage (settleFavorite (clickFavorite ''L'' ?s))))) = Some {}
   \<and> fav_calls (favRemote (settleFavorite (clickFavorite ''L''
         (renderPage (settleFavorite (clickFavorite ''L'' ?s))))))
       = [InsertFavorite ''u'' ''L'', DeleteFavorite ''u'' ''L'']"
    by (simp add: Let_def)
  with h1 h2 h3 h4 h5 h6 h7 h8 show ?thesis by blast
qed

section \<open>Deleting an image whose row is gone (C9)\<close>

text \<open>
  Claim C9 as stated fails at two inputs, for an id \<open>W\<close> that is neither in the cache
  nor in the remote rows.  With \<open>X, Z\<close> cached at positions \<open>0, 2\<close>,
  \<^verbatim>\<open>deleteMutation.onMutate\<close> rewrites the cache to positions \<open>0, 1\<close>: it always
  normalizes what it keeps.  With remote rows at positions \<open>2, 1000, 1001\<close> (what a
  renumbering leaves behind when its first loop is cut short), the delete itself goes
  through but the renumbering after it is refused at its first write, so the operation
  ends in an error.
\<close>

theorem delete_of_absent_row_counterexample:
  "''W'' \<notin> set (map img_id [mkImage ''X'' 0, mkImage ''Z'' 2])
   \<and> snd (deleteMutation_onMutate (mkImage ''W'' 1) (Some [mkImage ''X'' 0, mkImage ''Z'' 2]))
 = Some [mkImage ''X'' 0, mkImage ''Z'' 1]
   \<and> snd (deleteMutation_onMutate (mkImage ''W'' 1) (Some [mkImage ''X'' 0, mkImage ''Z'' 2]))
       \<noteq> Some [mkImage ''X'' 0, mkImage ''Z'' 2]
   \<and> ''W'' \<notin> set (map img_id [mkImage ''Z'' 2, mkImage ''X'' 1000, mkImage ''Y'' 1001])
   \<and> deleteMutation_mutationFn (mkImage ''W'' 3)
         (store [mkImage ''Z'' 2, mkImage ''X'' 1000, mkImage ''Y'' 1001])
       = (Inl ConstraintViolation,
          \<lparr>rows = [mkImage ''Z'' 2, mkImage ''X'' 1000, mkImage ''Y'' 1001], faults = [],
            calls = [DeleteImage ''W'', SelectImages, UpdatePosition ''Z'' 1000]\<rparr>)"
  by (simp add: deleteMutation_onMutate_def getQueryData_def normalizePositions_def
      sortByPosition_def mkImage_def enumerate_eq_zip Let_def
      deleteMutation_mutationFn_def and_then_def remoteDeleteItem_def remoteListItems_def
      issue_def store_def twoPhase_def remoteUpdateItemPosition_def collides_def)

text \<open>
  Claim C9 as amended.  When the remote row of the image is gone, the delete call reports
  no error and leaves the rows as they are, and the operation completes as success when
  no call meets a transport fault and the positions of the rows are below the offset
  1000 (ids are the primary key); when the image is also absent from the cached list and
  that list is at positions \<open>0, ..., n - 1\<close> in its order, \<^verbatim>\<open>onMutate\<close> leaves the
  cache value as it is.
\<close>

theorem delete_of_absent_row:
  assumes "img_id img \<notin> set (map img_id (rows r))" and "faults r = []"
    and "list_all (\<lambda>\<rho>. position \<rho> < 1000) (rows r)" and "distinct (map img_id (rows r))"
  shows "remoteDeleteItem (img_id img) r
           = (Inr (), r\<lparr>calls := calls r @ [DeleteImage (img_id img)]\<rparr>)
       \<and> (\<exists>r'. deleteMutation_mutationFn img r = (Inr (), r'))
       \<and> (img_id img \<notin> set (map img_id xs) \<and> map position xs = map int [0..<length xs]
            \<longrightarrow> deleteMutation_onMutate img (Some xs) = (xs, Some xs))"
proof -
  have "filter (\<lambda>\<rho>. img_id \<rho> \<noteq> img_id img) (rows r) = rows r"
    using assms(1) by (intro filter_True) (auto simp: image_iff)
  then have "remoteDeleteItem (img_id img) r
           = (Inr (), r\<lparr>calls := calls r @ [DeleteImage (img_id img)]\<rparr>)"
    using assms(2) by (simp add: remoteDeleteItem_no_faults)
  moreover have "\<exists>r'. deleteMutation_mutationFn img r = (Inr (), r')"
    using deleteMutation_succeeds[OF assms(2,3,4)] by blast
  moreover have "deleteMutation_onMutate img (Some xs) = (xs, Some xs)"
    if a: "img_id img \<notin> set (map img_id xs)" and p: "map position xs = map int [0..<length xs]"
  proof -
    have "filter (\<lambda>x. img_id x \<noteq> img_id img) xs = xs"
      using a by (intro filter_True) (auto simp: image_iff)
    with deleteMutation_onMutate_sorted[OF sorted_upto_positions[OF p], of img]
      renumber_fixed[OF p]
    show ?thesis by simp
  qed
  ultimately show ?thesis by blast
qed

theorem delete_of_absent_row_witness:
  "img_id (mkImage ''W'' 2) \<notin> set (map img_id (rows (store [mkImage ''X'' 0, mkImage ''Y'' 1])))
   \<and> faults (store [mkImage ''X'' 0, mkImage ''Y'' 1]) = []
   \<and> list_all (\<lambda>\<rho>. position \<rho> < 1000) (rows (store [mkImage ''X'' 0, mkImage ''Y'' 1]))
   \<and> distinct (map img_id (rows (store [mkImage ''X'' 0, mkImage ''Y'' 1])))
   \<and> img_id (mkImage ''W'' 2) \<notin> set (map img_id [mkImage ''X'' 0, mkImage ''Y'' 1])
   \<and> map position [mkImage ''X'' 0, mkImage ''Y'' 1] = map int [0..<length [mkImage ''X'' 0, mkImage ''Y'' 1]]
   \<and> (\<exists>r'. deleteMutation_mutationFn (mkImage ''W'' 2) (store [mkImage ''X'' 0, mkImage ''Y'' 1])
              = (Inr (), r'))
   \<and> deleteMutation_onMutate (mkImage ''W'' 2) (Some [mkImage ''X'' 0, mkImage ''Y'' 1])
       = ([mkImage ''X'' 0, mkImage ''Y'' 1], Some [mkImage ''X'' 0, mkImage ''Y'' 1])"
proof -
  let ?xs = "[mkImage ''X'' 0, mkImage ''Y'' 1]"
  have h1: "img_id (mkImage ''W'' 2) \<notin> set (map img_id (rows (store ?xs)))"
    by (simp add: store_def mkImage_def)
  have h2: "faults (store ?xs) = []" by (simp add: store_def)
  have h3: "list_all (\<lambda>\<rho>. position \<rho> < 1000) (rows (store ?xs))"
    by (simp add: store_def mkImage_def)
  have h4: "distinct (map img_id (rows (store ?xs)))" by (simp add: store_def mkImage_def)
  have h5: "img_id (mkImage ''W'' 2) \<notin> set (map img_id ?xs)" by (simp add: mkImage_def)
  have h6: "map position ?xs = map int [0..<length ?xs]"
    by (simp add: mkImage_def upt_rec)
  from delete_of_absent_row[OF h1 h2 h3 h4, of ?xs] h1 h2 h3 h4 h5 h6 show ?thesis by blast
qed

section \<open>Redundant set-cover requests (C10)\<close>

text \<open>
  Claim C10.  A set-cover request whose target is already at index 0 of the listing's
  position-sorted list, or whose id is not in that list, issues no position write: the
  remote phase issues the one read and leaves every row as it is, whether the read goes
  through or not, \<^verbatim>\<open>onMutate\<close> leaves the cache entry as it is, and so the cached
  list is the same list when the mutation is over.
\<close>

theorem setCover_redundant_noop:
  assumes "sortByPosition (rows r) = xs" and "sortByPosition (getQueryData c) = xs"
    and "(xs \<noteq> [] \<and> img_id (hd xs) = img_id img) \<or> img_id img \<notin> set (map img_id xs)"
  shows "(\<exists>res r'. setCoverMutation_mutationFn img r = (res, r') \<and> rows r' = rows r
            \<and> calls r' = calls r @ [SelectImages])
       \<and> setCoverMutation_onMutate img c = (getQueryData c, c)
       \<and> getQueryData (cacheAfter (runSetCover img c r)) = getQueryData c"
proof -
  have idx: "findIndex (\<lambda>x. img_id x = img_id img) xs \<le> 0"
  proof (cases "xs \<noteq> [] \<and> img_id (hd xs) = img_id img")
    case True
    then obtain y ys where "xs = y # ys" "img_id y = img_id img" by (cases xs) auto
    then show ?thesis by simp
  next
    case False
    with assms(3) have "img_id img \<notin> img_id ` set xs" by auto
    then have "\<not> list_ex (\<lambda>x. img_id x = img_id img) xs"
      by (auto simp: list_ex_iff image_iff)
    from findIndex_none[OF this] show ?thesis by simp
  qed
  obtain res r1 where l: "remoteListItems r = (res, r1)" by (cases "remoteListItems r")
  note l1 = remoteListItems_rows[OF l]
  have "\<exists>res r'. setCoverMutation_mutationFn img r = (res, r') \<and> rows r' = rows r
            \<and> calls r' = calls r @ [SelectImages]"
  proof (cases res)
    case (Inl e)
    with l l1 show ?thesis by (simp add: setCoverMutation_mutationFn_def and_then_def)
  next
    case (Inr rs)
    with l remoteListItems_value[of r rs r1] assms(1) have "rs = xs" by simp
    with Inr l l1 idx show ?thesis
      by (simp add: setCoverMutation_mutationFn_def and_then_def done_io_def Let_def)
  qed
  moreover have m: "setCoverMutation_onMutate img c = (getQueryData c, c)"
    using idx assms(2) by (simp add: setCoverMutation_onMutate_def Let_def)
  moreover have "getQueryData (cacheAfter (runSetCover img c r)) = getQueryData c"
    by (cases "setCoverMutation_mutationFn img r"; cases "fst (setCoverMutation_mutationFn img r)")
       (simp_all add: runSetCover_def runImageMutation_def m images_onError_def getQueryData_def
          split: prod.splits)
  ultimately show ?thesis by blast
qed

theorem setCover_redundant_noop_witness:
  "sortByPosition (rows (store [mkImage ''X'' 0, mkImage ''Y'' 1])) = [mkImage ''X'' 0, mkImage ''Y'' 1]
   \<and> sortByPosition (getQueryData (Some [mkImage ''X'' 0, mkImage ''Y'' 1])) = [mkImage ''X'' 0, mkImage ''Y'' 1]
   \<and> img_id (hd [mkImage ''X'' 0, mkImage ''Y'' 1]) = img_id (mkImage ''X'' 0)
   \<and> (\<exists>res r'. setCoverMutation_mutationFn (mkImage ''X'' 0) (store [mkImage ''X'' 0, mkImage ''Y'' 1]) = (res, r')
         \<and> rows r' = [mkImage ''X'' 0, mkImage ''Y'' 1] \<and> calls r' = [SelectImages])
   \<and> setCoverMutation_onMutate (mkImage ''X'' 0) (Some [mkImage ''X'' 0, mkImage ''Y'' 1])
       = ([mkImage ''X'' 0, mkImage ''Y'' 1], Some [mkImage ''X'' 0, mkImage ''Y'' 1])"
proof -
  let ?xs = "[mkImage ''X'' 0, mkImage ''Y'' 1]"
  have h1: "sortByPosition (rows (store ?xs)) = ?xs"
    by (simp add: sortByPosition_def store_def mkImage_def)
  have h2: "sortByPosition (getQueryData (Some ?xs)) = ?xs"
    by (simp add: sortByPosition_def getQueryData_def mkImage_def)
  have h3: "(?xs \<noteq> [] \<and> img_id (hd ?xs) = img_id (mkImage ''X'' 0))
            \<or> img_id (mkImage ''X'' 0) \<notin> set (map img_id ?xs)"
    by simp
  from setCover_redundant_noop[OF h1 h2 h3] h1 h2 show ?thesis
    by (simp add: store_def getQueryData_def)
qed

end
